theory Spec2Isabelle
  imports Main "HOL-Library.Word" "HOL-Library.Sublist"
begin

unbundle bit_operations_syntax

section \<open>Bulk USB transport of the Switch 2 driver\<close>

text \<open>
  A shallow embedding of \<^verbatim>\<open>src/joystick/hidapi/SDL_hidapi_switch2_usb.h\<close>.
  Machine integers are words: \<^verbatim>\<open>Uint8\<close> and \<^verbatim>\<open>unsigned char\<close> are \<open>8 word\<close>,
  \<^verbatim>\<open>unsigned\<close>, \<^verbatim>\<open>ULONG\<close> and the bit pattern of an \<^verbatim>\<open>int\<close> counter are \<open>32 word\<close>
  (\<open>sint\<close> reads the pattern as the \<^verbatim>\<open>int\<close> the C function returns). A pointer is
  \<open>nat option\<close>: \<open>None\<close> is \<^verbatim>\<open>NULL\<close> and \<open>Some a\<close> a valid object with identity \<open>a\<close>.
\<close>

type_synonym u8 = "8 word"
type_synonym u16 = "16 word"
type_synonym u32 = "32 word"
type_synonym ptr = "nat option"

subsection \<open>Constants of libusb.h\<close>

text \<open>
  The header \<^verbatim>\<open>libusb.h\<close> belongs to libusb, not to this repository; the values below are
  the ones it fixes (\<^verbatim>\<open>enum libusb_endpoint_transfer_type\<close>, \<^verbatim>\<open>enum libusb_endpoint_direction\<close>,
  \<^verbatim>\<open>enum libusb_error\<close>).
\<close>

definition LIBUSB_TRANSFER_TYPE_MASK :: u8 where
  "LIBUSB_TRANSFER_TYPE_MASK = 0x03"

definition LIBUSB_TRANSFER_TYPE_BULK :: u8 where
  "LIBUSB_TRANSFER_TYPE_BULK = 2"

definition LIBUSB_ENDPOINT_DIR_MASK :: u8 where
  "LIBUSB_ENDPOINT_DIR_MASK = 0x80"

definition LIBUSB_ENDPOINT_OUT :: u8 where
  "LIBUSB_ENDPOINT_OUT = 0x00"

definition LIBUSB_ENDPOINT_IN :: u8 where
  "LIBUSB_ENDPOINT_IN = 0x80"

definition LIBUSB_ERROR_TIMEOUT :: int where
  "LIBUSB_ERROR_TIMEOUT = -7"

subsection \<open>Configuration descriptors\<close>

text \<open>
  The descriptor structs of libusb, with each counted array (\<^verbatim>\<open>bNumEndpoints\<close> and
  \<^verbatim>\<open>endpoint\<close>, \<^verbatim>\<open>num_altsetting\<close> and \<^verbatim>\<open>altsetting\<close>, \<^verbatim>\<open>bNumInterfaces\<close> and
  \<^verbatim>\<open>interface\<close>) as a list: the count is the length.
\<close>

record libusb_endpoint_descriptor =
  bEndpointAddress :: u8
  bmAttributes :: u8

record libusb_interface_descriptor =
  bInterfaceNumber :: u8
  endpoint :: "libusb_endpoint_descriptor list"

record libusb_interface =
  altsetting :: "libusb_interface_descriptor list"

record libusb_config_descriptor =
  interface :: "libusb_interface list"

subsection \<open>Endpoint discovery\<close>

text \<open>
  The local \<^verbatim>\<open>found\<close> and the three locations the caller passes by pointer. The three
  nested loops of \<^verbatim>\<open>Switch2_BulkUSB_FindEndpoints\<close> are three recursive functions; the
  boolean says that the function has returned \<^verbatim>\<open>true\<close> from inside the loop.
\<close>

record find_vars =
  found :: int
  iface_num :: u8
  out_ep :: u8
  in_ep :: u8

fun scan_endpoints ::
  "u8 \<Rightarrow> libusb_endpoint_descriptor list \<Rightarrow> find_vars \<Rightarrow> bool \<times> find_vars" where
  "scan_endpoints n [] v = (False, v)"
| "scan_endpoints n (ep # eps) v =
     (if bmAttributes ep AND LIBUSB_TRANSFER_TYPE_MASK = LIBUSB_TRANSFER_TYPE_BULK then
        let v1 = v\<lparr>iface_num := n\<rparr>;
            v2 = (if bEndpointAddress ep AND LIBUSB_ENDPOINT_DIR_MASK = LIBUSB_ENDPOINT_OUT
                  then v1\<lparr>out_ep := bEndpointAddress ep, found := found v1 OR 1\<rparr>
                  else v1);
            v3 = (if bEndpointAddress ep AND LIBUSB_ENDPOINT_DIR_MASK = LIBUSB_ENDPOINT_IN
                  then v2\<lparr>in_ep := bEndpointAddress ep, found := found v2 OR 2\<rparr>
                  else v2)
        in if found v3 = 3 then (True, v3) else scan_endpoints n eps v3
      else scan_endpoints n eps v)"

fun scan_altsettings ::
  "libusb_interface_descriptor list \<Rightarrow> find_vars \<Rightarrow> bool \<times> find_vars" where
  "scan_altsettings [] v = (False, v)"
| "scan_altsettings (alt # alts) v =
     (if bInterfaceNumber alt = 1 then
        (case scan_endpoints (bInterfaceNumber alt) (endpoint alt) v of
           (True, v') \<Rightarrow> (True, v')
         | (False, v') \<Rightarrow> scan_altsettings alts v')
      else scan_altsettings alts v)"

fun scan_interfaces :: "libusb_interface list \<Rightarrow> find_vars \<Rightarrow> bool \<times> find_vars" where
  "scan_interfaces [] v = (False, v)"
| "scan_interfaces (iface # ifaces) v =
     (case scan_altsettings (altsetting iface) v of
        (True, v') \<Rightarrow> (True, v')
      | (False, v') \<Rightarrow> scan_interfaces ifaces v')"

text \<open>
  \<^verbatim>\<open>Switch2_BulkUSB_FindEndpoints\<close>. The first argument is what
  \<^verbatim>\<open>get_config_descriptor\<close> gave (\<open>None\<close> when it did not return 0), the second the
  contents of \<^verbatim>\<open>*iface_num\<close>, \<^verbatim>\<open>*out_ep\<close> and \<^verbatim>\<open>*in_ep\<close> before the call. The result
  is the returned boolean and the contents of the three locations afterwards.
\<close>

definition Switch2_BulkUSB_FindEndpoints ::
  "libusb_config_descriptor option \<Rightarrow> u8 \<times> u8 \<times> u8 \<Rightarrow> bool \<times> u8 \<times> u8 \<times> u8" where
  "Switch2_BulkUSB_FindEndpoints got outs =
     (case got of
        None \<Rightarrow> (False, outs)
      | Some config \<Rightarrow>
          (case outs of (n0, o0, i0) \<Rightarrow>
             (case scan_interfaces (interface config)
                     \<lparr>found = 0, iface_num = n0, out_ep = o0, in_ep = i0\<rparr> of
                (r, v) \<Rightarrow> (r, iface_num v, out_ep v, in_ep v))))"

text \<open>
  What the claims speak of: the endpoints of every descriptor numbered 1, in the order of
  the descriptor, and the two kinds of bulk endpoint.
\<close>

definition interface1_endpoints ::
  "libusb_config_descriptor \<Rightarrow> libusb_endpoint_descriptor list" where
  "interface1_endpoints config =
     concat (map endpoint
       (filter (\<lambda>alt. bInterfaceNumber alt = 1)
          (concat (map altsetting (interface config)))))"

definition bulk_out :: "libusb_endpoint_descriptor \<Rightarrow> bool" where
  "bulk_out ep \<longleftrightarrow>
     bmAttributes ep AND LIBUSB_TRANSFER_TYPE_MASK = LIBUSB_TRANSFER_TYPE_BULK \<and>
     bEndpointAddress ep AND LIBUSB_ENDPOINT_DIR_MASK = LIBUSB_ENDPOINT_OUT"

definition bulk_in :: "libusb_endpoint_descriptor \<Rightarrow> bool" where
  "bulk_in ep \<longleftrightarrow>
     bmAttributes ep AND LIBUSB_TRANSFER_TYPE_MASK = LIBUSB_TRANSFER_TYPE_BULK \<and>
     bEndpointAddress ep AND LIBUSB_ENDPOINT_DIR_MASK = LIBUSB_ENDPOINT_IN"

text \<open>
  Two descriptors for the concrete checks. The first has the layout of the controller:
  interface 0 with two interrupt endpoints, interface 1 with an interrupt endpoint between
  its bulk OUT endpoint \<open>0x02\<close> and its bulk IN endpoint \<open>0x82\<close>. The second has only
  interface 0.
\<close>

definition composite_config :: libusb_config_descriptor where
  "composite_config =
     \<lparr>interface =
        [\<lparr>altsetting =
            [\<lparr>bInterfaceNumber = 0,
              endpoint = [\<lparr>bEndpointAddress = 0x81, bmAttributes = 3\<rparr>,
                          \<lparr>bEndpointAddress = 0x01, bmAttributes = 3\<rparr>]\<rparr>]\<rparr>,
         \<lparr>altsetting =
            [\<lparr>bInterfaceNumber = 1,
              endpoint = [\<lparr>bEndpointAddress = 0x02, bmAttributes = 2\<rparr>,
                          \<lparr>bEndpointAddress = 0x83, bmAttributes = 3\<rparr>,
                          \<lparr>bEndpointAddress = 0x82, bmAttributes = 2\<rparr>]\<rparr>]\<rparr>]\<rparr>"

definition hid_only_config :: libusb_config_descriptor where
  "hid_only_config =
     \<lparr>interface =
        [\<lparr>altsetting =
            [\<lparr>bInterfaceNumber = 0,
              endpoint = [\<lparr>bEndpointAddress = 0x81, bmAttributes = 3\<rparr>,
                          \<lparr>bEndpointAddress = 0x01, bmAttributes = 2\<rparr>]\<rparr>]\<rparr>]\<rparr>"

subsection \<open>The transport context and the calls it makes\<close>

text \<open>
  \<^verbatim>\<open>struct Switch2_BulkUSB\<close>. The five fields that exist only under
  \<^verbatim>\<open>SDL_PLATFORM_WIN32\<close> are always present in the record; a function compiled without
  the macro (parameter \<open>win32\<close> false) neither reads nor writes them. A Windows
  \<^verbatim>\<open>HANDLE\<close> has the two distinguished values the code tests for.
\<close>

datatype HANDLE = NULL_HANDLE | INVALID_HANDLE_VALUE | Handle nat

record Switch2_BulkUSB =
  libusb :: ptr
  device_handle :: ptr
  owns_device_handle :: bool
  libusb_ctx :: ptr
  interface_claimed :: bool
  interface_number :: u8
  out_endpoint :: u8
  in_endpoint :: u8
  winusb_file_handle :: HANDLE
  winusb_handle :: ptr
  winusb_out_pipe :: u8
  winusb_in_pipe :: u8
  use_winusb :: bool

text \<open>
  How one overlapped WinUSB transfer ends, as the code tells the cases apart:
  \<^verbatim>\<open>CreateEventW\<close> returned no event; the pipe call returned \<^verbatim>\<open>TRUE\<close> with a
  transferred count; it returned \<^verbatim>\<open>FALSE\<close> with \<^verbatim>\<open>ERROR_IO_PENDING\<close> and the wait
  returned \<^verbatim>\<open>WAIT_OBJECT_0\<close> (the count is \<^verbatim>\<open>transferred\<close> after
  \<^verbatim>\<open>WinUsb_GetOverlappedResult\<close>); it was pending and the wait did not return
  \<^verbatim>\<open>WAIT_OBJECT_0\<close>; it returned \<^verbatim>\<open>FALSE\<close> with another error.
\<close>

datatype winusb_io =
    EventCreateFailed
  | IoCompleted u32
  | IoPendingSignaled u32
  | IoPendingTimedOut
  | IoFailed

text \<open>
  The calls to libusb, to the SDL libusb runtime and to WinUSB that the functions make are
  recorded in the order they are made: transfers with their arguments and their result,
  pipe control, and every acquisition and release of a resource the context records. For a
  transfer the arguments are the handle, the endpoint or pipe, the offset of \<^verbatim>\<open>data\<close> from
  the start of the caller's buffer, the length and (libusb) the timeout. The read without
  an \<^verbatim>\<open>OVERLAPPED\<close> with which the flush drains the pipe carries the count it read, or
  \<open>None\<close> when it returned \<^verbatim>\<open>FALSE\<close>. \<open>Libusb_open i\<close> is the call for the \<open>i\<close>-th device
  of the list.
\<close>

datatype event =
    Libusb_bulk_transfer ptr u8 nat u32 u32 int u32
  | WinUsb_ReadPipe ptr u8 nat u32 winusb_io
  | WinUsb_WritePipe ptr u8 u32 u32 winusb_io
  | WinUsb_ReadPipe_sync ptr u8 u32 "u32 option"
  | WinUsb_AbortPipe ptr u8
  | WinUsb_ResetPipe ptr u8
  | WinUsb_SetPipePolicy ptr u8 u32
  | CreateEventW_failed
  | CreateFileW
  | CloseHandle HANDLE
  | WinUsb_Initialize HANDLE
  | WinUsb_Free ptr
  | SetupDiDestroyDeviceInfoList
  | SDL_InitLibUSB
  | SDL_QuitLibUSB
  | Libusb_init
  | Libusb_exit ptr
  | Libusb_get_device_list
  | Libusb_free_device_list
  | Libusb_open nat
  | Libusb_close ptr
  | Libusb_set_auto_detach_kernel_driver ptr
  | Libusb_claim_interface ptr u8
  | Libusb_release_interface ptr u8

text \<open>
  The device and the two libraries are oracles. \<open>bulk_transfer\<close> answers the \<open>i\<close>-th
  transfer of a call for an endpoint, a data offset, a length, a timeout and the current
  contents of the caller's buffer with libusb's return value, the transferred count and the
  buffer afterwards; \<open>ReadPipe\<close> and \<open>WritePipe\<close> answer with the way the
  overlapped transfer ends. The buffer is of any type \<open>'b\<close>: the functions only hand it on.
\<close>

record 'b usb_io =
  bulk_transfer :: "nat \<Rightarrow> u8 \<Rightarrow> nat \<Rightarrow> u32 \<Rightarrow> u32 \<Rightarrow> 'b \<Rightarrow> int \<times> u32 \<times> 'b"
  ReadPipe :: "nat \<Rightarrow> u8 \<Rightarrow> nat \<Rightarrow> u32 \<Rightarrow> 'b \<Rightarrow> winusb_io \<times> 'b"
  WritePipe :: "u8 \<Rightarrow> u32 \<Rightarrow> u32 \<Rightarrow> winusb_io"

subsection \<open>Write\<close>

text \<open>
  \<^verbatim>\<open>Switch2_BulkUSB_WinUSB_Write\<close>: the returned \<^verbatim>\<open>int\<close> and the calls made. When the
  event cannot be created no pipe call is made; the record then holds the failed
  \<^verbatim>\<open>CreateEventW\<close>.
\<close>

definition Switch2_BulkUSB_WinUSB_Write ::
  "'b usb_io \<Rightarrow> Switch2_BulkUSB \<Rightarrow> u32 \<Rightarrow> u32 \<Rightarrow> int \<times> event list" where
  "Switch2_BulkUSB_WinUSB_Write io bulk size_v timeout_ms =
     (let r = WritePipe io (winusb_out_pipe bulk) size_v timeout_ms;
          call = WinUsb_WritePipe (winusb_handle bulk) (winusb_out_pipe bulk) size_v timeout_ms r
      in (case r of
           EventCreateFailed \<Rightarrow> (- 1, [CreateEventW_failed])
         | IoCompleted transferred \<Rightarrow> (sint transferred, [call])
         | IoPendingSignaled transferred \<Rightarrow> (sint transferred, [call])
         | IoPendingTimedOut \<Rightarrow>
             (- 7, [call, WinUsb_AbortPipe (winusb_handle bulk) (winusb_out_pipe bulk)])
         | IoFailed \<Rightarrow> (- 1, [call])))"

text \<open>
  \<^verbatim>\<open>Switch2_BulkUSB_Write\<close>. \<open>win32\<close> says whether the file is compiled with
  \<^verbatim>\<open>SDL_PLATFORM_WIN32\<close>.
\<close>

definition Switch2_BulkUSB_Write ::
  "bool \<Rightarrow> 'b usb_io \<Rightarrow> Switch2_BulkUSB \<Rightarrow> 'b \<Rightarrow> u32 \<Rightarrow> u32 \<Rightarrow> int \<times> event list" where
  "Switch2_BulkUSB_Write win32 io bulk data size_v timeout_ms =
     (if win32 \<and> use_winusb bulk then Switch2_BulkUSB_WinUSB_Write io bulk size_v timeout_ms
      else
        (case bulk_transfer io 0 (out_endpoint bulk) 0 size_v timeout_ms data of
           (res, transferred, data') \<Rightarrow>
             (if res < 0 then res else sint transferred,
              [Libusb_bulk_transfer (device_handle bulk) (out_endpoint bulk) 0 size_v
                 timeout_ms res transferred])))"

subsection \<open>Read\<close>

text \<open>
  The \<^verbatim>\<open>while (size > 0)\<close> loop of \<^verbatim>\<open>Switch2_BulkUSB_Read\<close> on the libusb path. The
  loop runs as long as the device makes it run, so the function is partial: \<open>None\<close> is a
  loop that never ends. \<open>i\<close> counts the transfers made, \<open>off\<close> is how far \<^verbatim>\<open>data\<close> has
  advanced, \<open>total_v\<close> holds the bits of the \<^verbatim>\<open>int total\<close>. The result is the returned
  \<^verbatim>\<open>int\<close>, the buffer and the calls made. (The C variables \<^verbatim>\<open>size\<close> and \<^verbatim>\<open>total\<close> are
  \<open>size_v\<close> and \<open>total_v\<close> here, since \<open>size\<close> and \<open>total\<close> are constants of HOL.)
\<close>

partial_function (option) libusb_read_loop ::
  "'b usb_io \<Rightarrow> Switch2_BulkUSB \<Rightarrow> nat \<Rightarrow> nat \<Rightarrow> u32 \<Rightarrow> u32 \<Rightarrow> 'b \<Rightarrow> event list \<Rightarrow>
   (int \<times> 'b \<times> event list) option" where
  "libusb_read_loop io bulk i off size_v total_v buf log =
     (if 0 < size_v then
        (let chunk = (if 64 < size_v then 64 else size_v) in
         case bulk_transfer io i (in_endpoint bulk) off chunk 500 buf of
           (res, transferred, buf') \<Rightarrow>
             let log' = log @ [Libusb_bulk_transfer (device_handle bulk) (in_endpoint bulk)
                                 off chunk 500 res transferred]
             in if res < 0 then Some (res, buf', log')
                else
                  let total' = total_v + transferred;
                      size' = size_v - transferred;
                      off' = off + unat chunk
                  in if transferred < chunk then Some (sint total', buf', log')
                     else libusb_read_loop io bulk (i + 1) off' size' total' buf' log')
      else Some (sint total_v, buf, log))"

text \<open>
  The loop of \<^verbatim>\<open>Switch2_BulkUSB_WinUSB_Read\<close>. \<open>total_v\<close> is the \<^verbatim>\<open>ULONG total\<close>,
  returned through the cast \<^verbatim>\<open>(int)total\<close>.
\<close>

partial_function (option) winusb_read_loop ::
  "'b usb_io \<Rightarrow> Switch2_BulkUSB \<Rightarrow> nat \<Rightarrow> nat \<Rightarrow> u32 \<Rightarrow> u32 \<Rightarrow> 'b \<Rightarrow> event list \<Rightarrow>
   (int \<times> 'b \<times> event list) option" where
  "winusb_read_loop io bulk i off size_v total_v buf log =
     (if 0 < size_v then
        (let chunk = (if 64 < size_v then 64 else size_v) in
         case ReadPipe io i (winusb_in_pipe bulk) off chunk buf of
           (r, buf') \<Rightarrow>
             let call = WinUsb_ReadPipe (winusb_handle bulk) (winusb_in_pipe bulk) off chunk r
             in (case r of
                  EventCreateFailed \<Rightarrow>
                    Some (if 0 < total_v then sint total_v else - 1, buf,
                          log @ [CreateEventW_failed])
                | IoPendingTimedOut \<Rightarrow>
                    Some (if 0 < total_v then sint total_v else - 7, buf',
                          log @ [call, WinUsb_AbortPipe (winusb_handle bulk) (winusb_in_pipe bulk)])
                | IoFailed \<Rightarrow>
                    Some (if 0 < total_v then sint total_v else - 1, buf', log @ [call])
                | IoCompleted transferred \<Rightarrow>
                    let total' = total_v + transferred;
                        size' = size_v - transferred;
                        off' = off + unat chunk
                    in if transferred < chunk then Some (sint total', buf', log @ [call])
                       else winusb_read_loop io bulk (i + 1) off' size' total' buf' (log @ [call])
                | IoPendingSignaled transferred \<Rightarrow>
                    let total' = total_v + transferred;
                        size' = size_v - transferred;
                        off' = off + unat chunk
                    in if transferred < chunk then Some (sint total', buf', log @ [call])
                       else winusb_read_loop io bulk (i + 1) off' size' total' buf' (log @ [call])))
      else Some (sint total_v, buf, log))"

definition Switch2_BulkUSB_WinUSB_Read ::
  "'b usb_io \<Rightarrow> Switch2_BulkUSB \<Rightarrow> 'b \<Rightarrow> u32 \<Rightarrow> (int \<times> 'b \<times> event list) option" where
  "Switch2_BulkUSB_WinUSB_Read io bulk data size_v = winusb_read_loop io bulk 0 0 size_v 0 data []"

definition Switch2_BulkUSB_Read ::
  "bool \<Rightarrow> 'b usb_io \<Rightarrow> Switch2_BulkUSB \<Rightarrow> 'b \<Rightarrow> u32 \<Rightarrow> (int \<times> 'b \<times> event list) option" where
  "Switch2_BulkUSB_Read win32 io bulk data size_v =
     (if win32 \<and> use_winusb bulk then Switch2_BulkUSB_WinUSB_Read io bulk data size_v
      else libusb_read_loop io bulk 0 0 size_v 0 data [])"

text \<open>
  Reading the record of a Read: which calls are transfers, how many bytes a transfer asked
  for, how many it delivered, and whether the loop took it as a success.
\<close>

fun is_transfer :: "event \<Rightarrow> bool" where
  "is_transfer (Libusb_bulk_transfer h e off len t res n) = True"
| "is_transfer (WinUsb_ReadPipe h p off len r) = True"
| "is_transfer (WinUsb_WritePipe h p len t r) = True"
| "is_transfer (WinUsb_ReadPipe_sync h p len r) = True"
| "is_transfer _ = False"

fun requested :: "event \<Rightarrow> u32" where
  "requested (Libusb_bulk_transfer h e off len t res n) = len"
| "requested (WinUsb_ReadPipe h p off len r) = len"
| "requested (WinUsb_WritePipe h p len t r) = len"
| "requested (WinUsb_ReadPipe_sync h p len r) = len"
| "requested _ = 0"

fun io_count :: "winusb_io \<Rightarrow> u32 option" where
  "io_count (IoCompleted n) = Some n"
| "io_count (IoPendingSignaled n) = Some n"
| "io_count _ = None"

fun delivered :: "event \<Rightarrow> u32" where
  "delivered (Libusb_bulk_transfer h e off len t res n) = n"
| "delivered (WinUsb_ReadPipe h p off len r) = (case io_count r of Some n \<Rightarrow> n | None \<Rightarrow> 0)"
| "delivered (WinUsb_WritePipe h p len t r) = (case io_count r of Some n \<Rightarrow> n | None \<Rightarrow> 0)"
| "delivered (WinUsb_ReadPipe_sync h p len r) = (case r of Some n \<Rightarrow> n | None \<Rightarrow> 0)"
| "delivered _ = 0"

fun succeeded :: "event \<Rightarrow> bool" where
  "succeeded (Libusb_bulk_transfer h e off len t res n) = (0 \<le> res)"
| "succeeded (WinUsb_ReadPipe h p off len r) = (io_count r \<noteq> None)"
| "succeeded (WinUsb_WritePipe h p len t r) = (io_count r \<noteq> None)"
| "succeeded (WinUsb_ReadPipe_sync h p len r) = (r \<noteq> None)"
| "succeeded _ = False"

definition transfers :: "event list \<Rightarrow> event list" where
  "transfers log = filter is_transfer log"

text \<open>
  The shape of the record a read loop leaves when it starts with \<open>size_v\<close> bytes to go
  and \<open>total_v\<close> accumulated, and the value it returns when every call was a successful
  transfer. Used in the proofs only.
\<close>

fun read_trace :: "u32 \<Rightarrow> u32 \<Rightarrow> event list \<Rightarrow> int \<Rightarrow> bool" where
  "read_trace size_v total_v [] ret = (size_v = 0 \<and> ret = sint total_v)"
| "read_trace size_v total_v (e # es) ret =
     (size_v \<noteq> 0 \<and>
      (if is_transfer e \<and> succeeded e then
         requested e = (if 64 < size_v then 64 else size_v) \<and>
         (if delivered e < requested e then es = [] \<and> ret = sint (total_v + delivered e)
          else read_trace (size_v - delivered e) (total_v + delivered e) es ret)
       else (is_transfer e \<longrightarrow> requested e = (if 64 < size_v then 64 else size_v)) \<and>
            (\<forall>e' \<in> set es. \<not> is_transfer e')))"

text \<open>
  The loop of Read iteration by iteration, for both backends; \<open>native\<close> is the WinUSB
  path. \<open>read_attempt\<close> is the one transfer an iteration makes when it is entered with
  \<open>size_v\<close> bytes to go: the call with its chunk and the answer it gets, as the loop
  records it, and the buffer after it. \<open>read_loop_state\<close> is the state in which the loop
  comes to its \<open>k\<close>-th test of \<^verbatim>\<open>size > 0\<close> (the transfers made, the offset into
  \<^verbatim>\<open>data\<close>, \<^verbatim>\<open>size\<close>, \<^verbatim>\<open>total\<close>, the buffer and the calls so far), and \<open>None\<close> when the
  loop has left before: the loop goes round again only when it was entered with bytes to go
  and the transfer succeeded and was not short. \<open>read_loop_from\<close> is either loop started
  in a given state.
\<close>

definition read_attempt ::
  "bool \<Rightarrow> 'b usb_io \<Rightarrow> Switch2_BulkUSB \<Rightarrow> nat \<Rightarrow> nat \<Rightarrow> u32 \<Rightarrow> 'b \<Rightarrow> event \<times> 'b" where
  "read_attempt native io bulk i off size_v buf =
     (let chunk = (if 64 < size_v then 64 else size_v) in
      if native then
        (case ReadPipe io i (winusb_in_pipe bulk) off chunk buf of
           (r, buf') \<Rightarrow>
             (WinUsb_ReadPipe (winusb_handle bulk) (winusb_in_pipe bulk) off chunk r, buf'))
      else
        (case bulk_transfer io i (in_endpoint bulk) off chunk 500 buf of
           (res, transferred, buf') \<Rightarrow>
             (Libusb_bulk_transfer (device_handle bulk) (in_endpoint bulk) off chunk 500 res
                transferred,
              buf')))"

fun read_loop_state ::
  "bool \<Rightarrow> 'b usb_io \<Rightarrow> Switch2_BulkUSB \<Rightarrow> 'b \<Rightarrow> u32 \<Rightarrow> nat \<Rightarrow>
   (nat \<times> u32 \<times> u32 \<times> 'b \<times> event list) option" where
  "read_loop_state native io bulk data size_v 0 = Some (0, size_v, 0, data, [])"
| "read_loop_state native io bulk data size_v (Suc k) =
     (case read_loop_state native io bulk data size_v k of
        None \<Rightarrow> None
      | Some (off, s, t, buf, log) \<Rightarrow>
          (case read_attempt native io bulk k off s buf of
             (e, buf') \<Rightarrow>
               if 0 < s \<and> succeeded e \<and> \<not> delivered e < requested e
               then Some (off + unat (requested e), s - delivered e, t + delivered e, buf',
                          log @ [e])
               else None))"

definition read_loop_from ::
  "bool \<Rightarrow> 'b usb_io \<Rightarrow> Switch2_BulkUSB \<Rightarrow> nat \<Rightarrow> nat \<times> u32 \<times> u32 \<times> 'b \<times> event list \<Rightarrow>
   (int \<times> 'b \<times> event list) option" where
  "read_loop_from native io bulk i st =
     (case st of (off, s, t, buf, log) \<Rightarrow>
        if native then winusb_read_loop io bulk i off s t buf log
        else libusb_read_loop io bulk i off s t buf log)"

definition caller_buffer :: "u8 list" where
  "caller_buffer = replicate 256 0"

text \<open>
  Scripted devices for the concrete checks: the \<open>i\<close>-th transfer gets the \<open>i\<close>-th answer
  of the script whatever is asked, and a transfer beyond the script times out. The buffer
  is left as it is.
\<close>

definition LIBUSB_timeout :: "int \<times> u32" where
  "LIBUSB_timeout = (LIBUSB_ERROR_TIMEOUT, 0)"

definition scripted :: "(int \<times> u32) list \<Rightarrow> winusb_io list \<Rightarrow> winusb_io \<Rightarrow> 'b usb_io" where
  "scripted answers ends wr =
     \<lparr>bulk_transfer = (\<lambda>i e off len t buf.
          if i < length answers then (fst (answers ! i), snd (answers ! i), buf)
          else (fst LIBUSB_timeout, snd LIBUSB_timeout, buf)),
      ReadPipe = (\<lambda>i p off len buf.
          if i < length ends then (ends ! i, buf) else (IoPendingTimedOut, buf)),
      WritePipe = (\<lambda>p len t. wr)\<rparr>"

text \<open>A context as the caller creates it (zeroed), and one on each backend.\<close>

definition empty_bulk :: Switch2_BulkUSB where
  "empty_bulk =
     \<lparr>libusb = None, device_handle = None, owns_device_handle = False, libusb_ctx = None,
      interface_claimed = False, interface_number = 0, out_endpoint = 0, in_endpoint = 0,
      winusb_file_handle = NULL_HANDLE, winusb_handle = None, winusb_out_pipe = 0,
      winusb_in_pipe = 0, use_winusb = False\<rparr>"

definition libusb_bulk :: Switch2_BulkUSB where
  "libusb_bulk =
     empty_bulk\<lparr>libusb := Some 1, device_handle := Some 2, interface_claimed := True,
       interface_number := 1, out_endpoint := 0x02, in_endpoint := 0x82\<rparr>"

definition winusb_bulk :: Switch2_BulkUSB where
  "winusb_bulk =
     empty_bulk\<lparr>winusb_file_handle := Handle 3, winusb_handle := Some 4,
       winusb_out_pipe := 0x02, winusb_in_pipe := 0x82, use_winusb := True\<rparr>"

text \<open>
  A device and library that behave: every libusb transfer returns a code that is not
  negative and every WinUSB transfer completes, at once or after the wait, and none
  delivers more than it was asked for.
\<close>

definition well_behaved :: "'b usb_io \<Rightarrow> bool" where
  "well_behaved io \<longleftrightarrow>
     (\<forall>i e off len t b. 0 \<le> fst (bulk_transfer io i e off len t b) \<and>
                        fst (snd (bulk_transfer io i e off len t b)) \<le> len) \<and>
     (\<forall>i p off len b. \<exists>n. n \<le> len \<and>
        (fst (ReadPipe io i p off len b) = IoCompleted n \<or>
         fst (ReadPipe io i p off len b) = IoPendingSignaled n))"

text \<open>The device that always delivers exactly what it is asked for.\<close>

definition obedient :: "'b usb_io" where
  "obedient =
     \<lparr>bulk_transfer = (\<lambda>i e off len t buf. (0, len, buf)),
      ReadPipe = (\<lambda>i p off len buf. (IoCompleted len, buf)),
      WritePipe = (\<lambda>p len t. IoCompleted len)\<rparr>"

subsection \<open>Close\<close>

text \<open>
  \<^verbatim>\<open>Switch2_BulkUSB_CloseWinUSB\<close> and \<^verbatim>\<open>Switch2_BulkUSB_Close\<close>: the context afterwards
  and the calls made, in order. Each \<^verbatim>\<open>if\<close> of the source is one step on the pair of
  the context and the calls so far, and the steps are composed in the order of the source.
\<close>

definition close_winusb_handle ::
  "Switch2_BulkUSB \<times> event list \<Rightarrow> Switch2_BulkUSB \<times> event list" where
  "close_winusb_handle s =
     (case s of (bulk, log) \<Rightarrow>
        if winusb_handle bulk \<noteq> None
        then (bulk\<lparr>winusb_handle := None\<rparr>, log @ [WinUsb_Free (winusb_handle bulk)])
        else (bulk, log))"

definition close_winusb_file ::
  "Switch2_BulkUSB \<times> event list \<Rightarrow> Switch2_BulkUSB \<times> event list" where
  "close_winusb_file s =
     (case s of (bulk, log) \<Rightarrow>
        if winusb_file_handle bulk \<noteq> NULL_HANDLE \<and>
           winusb_file_handle bulk \<noteq> INVALID_HANDLE_VALUE
        then (bulk\<lparr>winusb_file_handle := NULL_HANDLE\<rparr>,
              log @ [CloseHandle (winusb_file_handle bulk)])
        else (bulk, log))"

definition Switch2_BulkUSB_CloseWinUSB ::
  "Switch2_BulkUSB \<times> event list \<Rightarrow> Switch2_BulkUSB \<times> event list" where
  "Switch2_BulkUSB_CloseWinUSB s =
     (case close_winusb_file (close_winusb_handle s) of
        (bulk, log) \<Rightarrow> (bulk\<lparr>use_winusb := False\<rparr>, log))"

definition close_native ::
  "bool \<Rightarrow> Switch2_BulkUSB \<times> event list \<Rightarrow> Switch2_BulkUSB \<times> event list" where
  "close_native win32 s =
     (case s of (bulk, log) \<Rightarrow>
        if win32 \<and> use_winusb bulk then Switch2_BulkUSB_CloseWinUSB (bulk, log)
        else (bulk, log))"

definition close_interface ::
  "Switch2_BulkUSB \<times> event list \<Rightarrow> Switch2_BulkUSB \<times> event list" where
  "close_interface s =
     (case s of (bulk, log) \<Rightarrow>
        if interface_claimed bulk \<and> libusb bulk \<noteq> None
        then (bulk\<lparr>interface_claimed := False\<rparr>,
              log @ [Libusb_release_interface (device_handle bulk) (interface_number bulk)])
        else (bulk, log))"

definition close_device ::
  "Switch2_BulkUSB \<times> event list \<Rightarrow> Switch2_BulkUSB \<times> event list" where
  "close_device s =
     (case s of (bulk, log) \<Rightarrow>
        if owns_device_handle bulk \<and> device_handle bulk \<noteq> None \<and> libusb bulk \<noteq> None
        then (bulk\<lparr>device_handle := None\<rparr>, log @ [Libusb_close (device_handle bulk)])
        else (bulk, log))"

definition close_context ::
  "Switch2_BulkUSB \<times> event list \<Rightarrow> Switch2_BulkUSB \<times> event list" where
  "close_context s =
     (case s of (bulk, log) \<Rightarrow>
        if libusb_ctx bulk \<noteq> None \<and> libusb bulk \<noteq> None
        then (bulk\<lparr>libusb_ctx := None\<rparr>, log @ [Libusb_exit (libusb_ctx bulk)])
        else (bulk, log))"

definition close_runtime ::
  "Switch2_BulkUSB \<times> event list \<Rightarrow> Switch2_BulkUSB \<times> event list" where
  "close_runtime s =
     (case s of (bulk, log) \<Rightarrow>
        if libusb bulk \<noteq> None
        then (bulk\<lparr>libusb := None\<rparr>, log @ [SDL_QuitLibUSB])
        else (bulk, log))"

definition Switch2_BulkUSB_Close ::
  "bool \<Rightarrow> Switch2_BulkUSB \<Rightarrow> Switch2_BulkUSB \<times> event list" where
  "Switch2_BulkUSB_Close win32 bulk =
     close_runtime (close_context (close_device (close_interface
       (close_native win32 (bulk, [])))))"

text \<open>
  \<open>n\<close> calls of Close in a row on the same context: the context at the end and all the
  calls made.
\<close>

fun close_times :: "bool \<Rightarrow> nat \<Rightarrow> Switch2_BulkUSB \<Rightarrow> Switch2_BulkUSB \<times> event list" where
  "close_times win32 0 bulk = (bulk, [])"
| "close_times win32 (Suc n) bulk =
     (case Switch2_BulkUSB_Close win32 bulk of
        (bulk', log) \<Rightarrow>
          (case close_times win32 n bulk' of (bulk'', log') \<Rightarrow> (bulk'', log @ log')))"

text \<open>
  The release calls, and what it means that the context records the resource a release
  call is made on.
\<close>

fun is_release_interface :: "event \<Rightarrow> bool" where
  "is_release_interface (Libusb_release_interface h n) = True"
| "is_release_interface _ = False"

fun is_release :: "event \<Rightarrow> bool" where
  "is_release (WinUsb_Free h) = True"
| "is_release (CloseHandle h) = True"
| "is_release (Libusb_release_interface h n) = True"
| "is_release (Libusb_close h) = True"
| "is_release (Libusb_exit c) = True"
| "is_release SDL_QuitLibUSB = True"
| "is_release _ = False"

fun acquired :: "Switch2_BulkUSB \<Rightarrow> event \<Rightarrow> bool" where
  "acquired bulk (WinUsb_Free h) = (use_winusb bulk \<and> h \<noteq> None \<and> winusb_handle bulk = h)"
| "acquired bulk (CloseHandle h) =
     (use_winusb bulk \<and> h \<noteq> NULL_HANDLE \<and> h \<noteq> INVALID_HANDLE_VALUE \<and>
      winusb_file_handle bulk = h)"
| "acquired bulk (Libusb_release_interface h n) =
     (interface_claimed bulk \<and> libusb bulk \<noteq> None \<and> device_handle bulk = h \<and>
      interface_number bulk = n)"
| "acquired bulk (Libusb_close h) =
     (owns_device_handle bulk \<and> libusb bulk \<noteq> None \<and> h \<noteq> None \<and> device_handle bulk = h)"
| "acquired bulk (Libusb_exit c) = (libusb bulk \<noteq> None \<and> c \<noteq> None \<and> libusb_ctx bulk = c)"
| "acquired bulk SDL_QuitLibUSB = (libusb bulk \<noteq> None)"
| "acquired bulk _ = False"

text \<open>
  A context that was opened on the libusb path with a connection of its own, and one that
  is in use on WinUSB while libusb fields are set as well.
\<close>

definition owned_bulk :: Switch2_BulkUSB where
  "owned_bulk = libusb_bulk\<lparr>owns_device_handle := True, libusb_ctx := Some 5\<rparr>"

definition mixed_bulk :: Switch2_BulkUSB where
  "mixed_bulk =
     owned_bulk\<lparr>winusb_file_handle := Handle 3, winusb_handle := Some 4, use_winusb := True\<rparr>"

subsection \<open>Open\<close>

text \<open>
  What \<^verbatim>\<open>Switch2_BulkUSB_OpenWinUSB\<close> finds out about one device interface of the
  enumeration: whether the buffer for the detail could be allocated, whether the detail
  could be read, the device path, what \<^verbatim>\<open>CreateFileW\<close> returned, the session handle of
  \<^verbatim>\<open>WinUsb_Initialize\<close> (\<open>None\<close> when it failed) and, when
  \<^verbatim>\<open>WinUsb_QueryInterfaceSettings\<close> succeeded, the answer of \<^verbatim>\<open>WinUsb_QueryPipe\<close> for each
  of the \<^verbatim>\<open>bNumEndpoints\<close> endpoints (\<open>None\<close> when the query failed).
\<close>

datatype USBD_PIPE_TYPE =
  UsbdPipeTypeControl | UsbdPipeTypeIsochronous | UsbdPipeTypeBulk | UsbdPipeTypeInterrupt

record WINUSB_PIPE_INFORMATION =
  PipeType :: USBD_PIPE_TYPE
  PipeId :: u8

record device_interface =
  detail_allocated :: bool
  detail_read :: bool
  DevicePath :: string
  created_file :: HANDLE
  winusb_session :: ptr
  queried_pipes :: "WINUSB_PIPE_INFORMATION option list option"

text \<open>\<^verbatim>\<open>wcsstr (path, needle) != NULL\<close>: the needle occurs in the path.\<close>

fun wcsstr_found :: "string \<Rightarrow> string \<Rightarrow> bool" where
  "wcsstr_found [] needle = (needle = [])"
| "wcsstr_found (c # cs) needle = (prefix needle (c # cs) \<or> wcsstr_found cs needle)"

text \<open>The loop over the endpoints; the pair is \<^verbatim>\<open>out_pipe\<close> and \<^verbatim>\<open>in_pipe\<close>.\<close>

fun query_pipes :: "WINUSB_PIPE_INFORMATION option list \<Rightarrow> u8 \<times> u8 \<Rightarrow> u8 \<times> u8" where
  "query_pipes [] pipes = pipes"
| "query_pipes (q # qs) pipes =
     (case pipes of (out_pipe, in_pipe) \<Rightarrow>
        (case q of
           None \<Rightarrow> query_pipes qs (out_pipe, in_pipe)
         | Some pipeInfo \<Rightarrow>
             if PipeType pipeInfo = UsbdPipeTypeBulk then
               (if PipeId pipeInfo AND 0x80 \<noteq> 0
                then query_pipes qs (out_pipe, PipeId pipeInfo)
                else query_pipes qs (PipeId pipeInfo, in_pipe))
             else query_pipes qs (out_pipe, in_pipe)))"

text \<open>
  The loop over the device interfaces. A candidate that fails is skipped after the handles
  opened for it are closed; the first one with a bulk pipe in each direction is stored
  in the context.
\<close>

fun try_interfaces ::
  "device_interface list \<Rightarrow> Switch2_BulkUSB \<Rightarrow> event list \<Rightarrow>
   bool \<times> Switch2_BulkUSB \<times> event list" where
  "try_interfaces [] bulk log = (False, bulk, log @ [SetupDiDestroyDeviceInfoList])"
| "try_interfaces (c # cs) bulk log =
     (if \<not> detail_allocated c then try_interfaces cs bulk log
      else if \<not> detail_read c then try_interfaces cs bulk log
      else if \<not> wcsstr_found (DevicePath c) ''vid_057e'' \<and>
              \<not> wcsstr_found (DevicePath c) ''VID_057E'' then try_interfaces cs bulk log
      else if created_file c = INVALID_HANDLE_VALUE
        then try_interfaces cs bulk (log @ [CreateFileW])
      else
        (case winusb_session c of
           None \<Rightarrow>
             try_interfaces cs bulk
               (log @ [CreateFileW, WinUsb_Initialize (created_file c),
                       CloseHandle (created_file c)])
         | Some wh \<Rightarrow>
             (case queried_pipes c of
                None \<Rightarrow>
                  try_interfaces cs bulk
                    (log @ [CreateFileW, WinUsb_Initialize (created_file c),
                            WinUsb_Free (Some wh), CloseHandle (created_file c)])
              | Some qs \<Rightarrow>
                  (case query_pipes qs (0, 0) of
                     (out_pipe, in_pipe) \<Rightarrow>
                       if out_pipe = 0 \<or> in_pipe = 0 then
                         try_interfaces cs bulk
                           (log @ [CreateFileW, WinUsb_Initialize (created_file c),
                                   WinUsb_Free (Some wh), CloseHandle (created_file c)])
                       else
                         (True,
                          bulk\<lparr>winusb_file_handle := created_file c,
                               winusb_handle := Some wh,
                               winusb_out_pipe := out_pipe,
                               winusb_in_pipe := in_pipe,
                               use_winusb := True\<rparr>,
                          log @ [CreateFileW, WinUsb_Initialize (created_file c),
                                 WinUsb_SetPipePolicy (Some wh) out_pipe 1000,
                                 WinUsb_SetPipePolicy (Some wh) in_pipe 1000,
                                 SetupDiDestroyDeviceInfoList])))))"

text \<open>
  Everything outside the context that \<^verbatim>\<open>Switch2_BulkUSB_Open\<close> asks: the device
  interfaces of the class (\<open>None\<close> when \<^verbatim>\<open>SetupDiGetClassDevsW\<close> gave
  \<^verbatim>\<open>INVALID_HANDLE_VALUE\<close>); for the \<open>i\<close>-th read of the flush the count it read, or
  \<open>None\<close> when it returned \<^verbatim>\<open>FALSE\<close>; the pointer \<^verbatim>\<open>SDL_InitLibUSB\<close> stored (\<open>None\<close>
  when it returned false; the function is in \<^verbatim>\<open>SDL_libusb.c\<close>, and a failed call is
  taken to leave \<^verbatim>\<open>bulk->libusb\<close> as it was); the context of \<^verbatim>\<open>libusb->init\<close> (\<open>None\<close>
  when it did not return 0); the device list (\<open>None\<close> when \<^verbatim>\<open>get_device_list\<close> failed
  and left \<^verbatim>\<open>devs\<close> \<^verbatim>\<open>NULL\<close>), each device with its descriptor (\<open>None\<close> when
  \<^verbatim>\<open>get_device_descriptor\<close> failed) and the handle \<^verbatim>\<open>libusb->open\<close> gives for it (\<open>None\<close>
  when it failed); the configuration descriptor of the device behind a handle; and what
  \<^verbatim>\<open>claim_interface\<close> returns.
\<close>

record libusb_device_descriptor =
  idVendor :: u16
  idProduct :: u16

record libusb_device =
  device_descriptor :: "libusb_device_descriptor option"
  opened :: ptr

record open_env =
  class_devices :: "device_interface list option"
  flush_read :: "nat \<Rightarrow> u32 option"
  init_libusb :: ptr
  libusb_init :: ptr
  device_list :: "libusb_device list option"
  config_descriptor :: "nat \<Rightarrow> libusb_config_descriptor option"
  claim_interface :: "nat \<Rightarrow> u8 \<Rightarrow> int"

text \<open>
  The part of \<^verbatim>\<open>SDL_HIDAPI_Device\<close> the function reads: the two identifiers and the
  libusb handle the HID layer publishes as a property (\<open>None\<close> when there is none).
\<close>

record SDL_HIDAPI_Device =
  vendor_id :: u16
  product_id :: u16
  libusb_handle_property :: ptr

definition Switch2_BulkUSB_OpenWinUSB ::
  "open_env \<Rightarrow> Switch2_BulkUSB \<Rightarrow> bool \<times> Switch2_BulkUSB \<times> event list" where
  "Switch2_BulkUSB_OpenWinUSB env bulk =
     (case class_devices env of
        None \<Rightarrow> (False, bulk, [])
      | Some cs \<Rightarrow> try_interfaces cs bulk [])"

text \<open>
  \<^verbatim>\<open>Switch2_BulkUSB_FlushWinUSB\<close>. The draining loop runs as long as reads succeed, so it
  is partial; \<open>None\<close> is a flush that never ends.
\<close>

partial_function (option) flush_loop ::
  "open_env \<Rightarrow> Switch2_BulkUSB \<Rightarrow> nat \<Rightarrow> event list \<Rightarrow> event list option" where
  "flush_loop env bulk i log =
     (case flush_read env i of
        Some n \<Rightarrow>
          flush_loop env bulk (i + 1)
            (log @ [WinUsb_ReadPipe_sync (winusb_handle bulk) (winusb_in_pipe bulk) 64 (Some n)])
      | None \<Rightarrow>
          Some (log @ [WinUsb_ReadPipe_sync (winusb_handle bulk) (winusb_in_pipe bulk) 64 None]))"

definition Switch2_BulkUSB_FlushWinUSB ::
  "open_env \<Rightarrow> Switch2_BulkUSB \<Rightarrow> event list \<Rightarrow> event list option" where
  "Switch2_BulkUSB_FlushWinUSB env bulk log =
     (case flush_loop env bulk 0
             (log @ [WinUsb_ResetPipe (winusb_handle bulk) (winusb_out_pipe bulk),
                     WinUsb_ResetPipe (winusb_handle bulk) (winusb_in_pipe bulk),
                     WinUsb_SetPipePolicy (winusb_handle bulk) (winusb_in_pipe bulk) 50]) of
        None \<Rightarrow> None
      | Some log' \<Rightarrow>
          Some (log' @ [WinUsb_SetPipePolicy (winusb_handle bulk) (winusb_in_pipe bulk) 1000]))"

text \<open>
  The loop over the device list: the first device with the identifiers of \<open>device\<close>
  that can be opened ends it.
\<close>

fun open_matching ::
  "SDL_HIDAPI_Device \<Rightarrow> ptr \<Rightarrow> libusb_device list \<Rightarrow> nat \<Rightarrow> Switch2_BulkUSB \<Rightarrow> event list \<Rightarrow>
   Switch2_BulkUSB \<times> event list" where
  "open_matching device usb_ctx [] i bulk log = (bulk, log)"
| "open_matching device usb_ctx (d # ds) i bulk log =
     (case device_descriptor d of
        None \<Rightarrow> open_matching device usb_ctx ds (i + 1) bulk log
      | Some desc \<Rightarrow>
          if idVendor desc = vendor_id device \<and> idProduct desc = product_id device then
            (case opened d of
               Some h \<Rightarrow>
                 (bulk\<lparr>device_handle := Some h, owns_device_handle := True,
                       libusb_ctx := usb_ctx\<rparr>,
                  log @ [Libusb_open i])
             | None \<Rightarrow> open_matching device usb_ctx ds (i + 1) bulk (log @ [Libusb_open i]))
          else open_matching device usb_ctx ds (i + 1) bulk log)"

text \<open>
  The block that opens a libusb connection of the transport's own when the HID layer has
  no handle to share.
\<close>

definition own_connection ::
  "open_env \<Rightarrow> SDL_HIDAPI_Device \<Rightarrow> Switch2_BulkUSB \<Rightarrow> event list \<Rightarrow>
   Switch2_BulkUSB \<times> event list" where
  "own_connection env device bulk log =
     (case libusb_init env of
        None \<Rightarrow> (bulk, log @ [Libusb_init])
      | Some ctx \<Rightarrow>
          (case (case device_list env of
                   None \<Rightarrow> (bulk, log @ [Libusb_init, Libusb_get_device_list])
                 | Some ds \<Rightarrow>
                     (case open_matching device (Some ctx) ds 0 bulk
                             (log @ [Libusb_init, Libusb_get_device_list]) of
                        (bulk', log') \<Rightarrow> (bulk', log' @ [Libusb_free_device_list]))) of
             (bulk', log') \<Rightarrow>
               if device_handle bulk' = None then (bulk', log' @ [Libusb_exit (Some ctx)])
               else (bulk', log')))"

text \<open>
  The errors \<^verbatim>\<open>Switch2_BulkUSB_Open\<close> sets with \<^verbatim>\<open>SDL_SetError\<close> before it returns false.
\<close>

datatype open_error =
    Couldnt_initialize_libusb
  | Couldnt_get_libusb_device_handle
  | Couldnt_find_bulk_endpoints
  | Couldnt_claim_interface u8 int

text \<open>The libusb part of \<^verbatim>\<open>Switch2_BulkUSB_Open\<close>, from \<^verbatim>\<open>SDL_InitLibUSB\<close> on.\<close>

definition open_libusb ::
  "open_env \<Rightarrow> SDL_HIDAPI_Device \<Rightarrow> Switch2_BulkUSB \<Rightarrow> event list \<Rightarrow>
   (open_error + unit) \<times> Switch2_BulkUSB \<times> event list" where
  "open_libusb env device bulk log =
     (case init_libusb env of
        None \<Rightarrow> (Inl Couldnt_initialize_libusb, bulk, log @ [SDL_InitLibUSB])
      | Some p \<Rightarrow>
          (case (let bulk1 = bulk\<lparr>libusb := Some p,
                                   device_handle := libusb_handle_property device\<rparr>
                 in if device_handle bulk1 = None
                    then own_connection env device bulk1 (log @ [SDL_InitLibUSB])
                    else (bulk1, log @ [SDL_InitLibUSB])) of
             (bulk2, log2) \<Rightarrow>
               (case device_handle bulk2 of
                  None \<Rightarrow>
                    (Inl Couldnt_get_libusb_device_handle, bulk2\<lparr>libusb := None\<rparr>,
                     log2 @ [SDL_QuitLibUSB])
                | Some h \<Rightarrow>
                    (case Switch2_BulkUSB_FindEndpoints (config_descriptor env h)
                            (interface_number bulk2, out_endpoint bulk2, in_endpoint bulk2) of
                       (ok, n, ep_out, ep_in) \<Rightarrow>
                         (let bulk3 = bulk2\<lparr>interface_number := n, out_endpoint := ep_out,
                                               in_endpoint := ep_in\<rparr>
                          in if \<not> ok then (Inl Couldnt_find_bulk_endpoints, bulk3, log2)
                             else
                               (let res = claim_interface env h n;
                                    log3 = log2 @ [Libusb_set_auto_detach_kernel_driver (Some h),
                                                   Libusb_claim_interface (Some h) n]
                                in if res < 0
                                   then (Inl (Couldnt_claim_interface n res), bulk3, log3)
                                   else (Inr (), bulk3\<lparr>interface_claimed := True\<rparr>,
                                         log3)))))))"

text \<open>
  \<^verbatim>\<open>Switch2_BulkUSB_Open\<close>: \<open>Inr ()\<close> for true, \<open>Inl\<close> the error for false, with the
  context afterwards and the calls made. \<open>None\<close> is an Open whose flush never ends.
\<close>

definition Switch2_BulkUSB_Open ::
  "bool \<Rightarrow> open_env \<Rightarrow> SDL_HIDAPI_Device \<Rightarrow> Switch2_BulkUSB \<Rightarrow>
   ((open_error + unit) \<times> Switch2_BulkUSB \<times> event list) option" where
  "Switch2_BulkUSB_Open win32 env device bulk =
     (case (if win32 then Switch2_BulkUSB_OpenWinUSB env bulk else (False, bulk, [])) of
        (native, bulk1, log1) \<Rightarrow>
          if native then
            (case Switch2_BulkUSB_FlushWinUSB env bulk1 log1 of
               None \<Rightarrow> None
             | Some log2 \<Rightarrow> Some (Inr (), bulk1, log2))
          else Some (open_libusb env device bulk1 log1))"

text \<open>
  Environments for the concrete checks. In \<open>shared_env\<close> libusb can be initialised;
  the device of \<open>shared_device\<close> shares the handle 7, behind which \<open>shared_env\<close> has the
  configuration with only interface 0. \<open>no_libusb_env\<close> is the same without libusb, and
  in \<open>claimable_env\<close> the handle 7 has the configuration of the controller and the
  interface can be claimed. \<open>lonely_device\<close> shares no handle.
\<close>

definition shared_env :: open_env where
  "shared_env =
     \<lparr>class_devices = None, flush_read = (\<lambda>i. None), init_libusb = Some 1,
      libusb_init = None, device_list = None,
      config_descriptor = (\<lambda>h. if h = 7 then Some hid_only_config else None),
      claim_interface = (\<lambda>h n. 0)\<rparr>"

definition no_libusb_env :: open_env where
  "no_libusb_env = shared_env\<lparr>init_libusb := None\<rparr>"

definition claimable_env :: open_env where
  "claimable_env =
     shared_env\<lparr>config_descriptor := (\<lambda>h. if h = 7 then Some composite_config else None)\<rparr>"

definition busy_env :: open_env where
  "busy_env = claimable_env\<lparr>claim_interface := (\<lambda>h n. - 6)\<rparr>"

definition shared_device :: SDL_HIDAPI_Device where
  "shared_device = \<lparr>vendor_id = 0x057E, product_id = 0x2069, libusb_handle_property = Some 7\<rparr>"

definition lonely_device :: SDL_HIDAPI_Device where
  "lonely_device = shared_device\<lparr>libusb_handle_property := None\<rparr>"

text \<open>The calls that claim an interface.\<close>

fun is_claim_interface :: "event \<Rightarrow> bool" where
  "is_claim_interface (Libusb_claim_interface h n) = True"
| "is_claim_interface _ = False"

text \<open>A call that is neither a transfer nor a claim of an interface.\<close>

definition quiet :: "event \<Rightarrow> bool" where
  "quiet e \<longleftrightarrow> \<not> is_transfer e \<and> \<not> is_claim_interface e"

section \<open>Endpoint discovery: proofs\<close>

lemma scan_endpoints_append:
  "scan_endpoints n (xs @ ys) v =
     (case scan_endpoints n xs v of
        (True, v') \<Rightarrow> (True, v')
      | (False, v') \<Rightarrow> scan_endpoints n ys v')"
  by (induction xs arbitrary: v) (simp_all add: Let_def)

lemma scan_altsettings_flat:
  "scan_altsettings alts v =
     scan_endpoints 1 (concat (map endpoint (filter (\<lambda>alt. bInterfaceNumber alt = 1) alts))) v"
proof (induction alts arbitrary: v)
  case Nil
  show ?case by simp
next
  case (Cons alt alts)
  show ?case
  proof (cases "bInterfaceNumber alt = 1")
    case True
    then show ?thesis
      by (simp add: scan_endpoints_append Cons.IH split: prod.splits bool.splits)
  next
    case False
    then show ?thesis by (simp add: Cons.IH)
  qed
qed

lemma scan_interfaces_flat:
  "scan_interfaces ifaces v =
     scan_endpoints 1
       (concat (map endpoint
          (filter (\<lambda>alt. bInterfaceNumber alt = 1) (concat (map altsetting ifaces))))) v"
proof (induction ifaces arbitrary: v)
  case Nil
  show ?case by simp
next
  case (Cons iface ifaces)
  show ?case
    by (simp add: scan_altsettings_flat scan_endpoints_append Cons.IH
        split: prod.splits bool.splits)
qed

lemma not_out_and_in: "\<not> (bulk_out ep \<and> bulk_in ep)"
  by (auto simp: bulk_out_def bulk_in_def LIBUSB_ENDPOINT_OUT_def LIBUSB_ENDPOINT_IN_def)

lemma scan_endpoints_pair:
  assumes "found v = 0 \<or> found v = 1 \<or> found v = 2"
    and "length (filter bulk_out E) + (if found v = 1 then 1 else 0) = 1"
    and "length (filter bulk_in E) + (if found v = 2 then 1 else 0) = 1"
  shows "scan_endpoints n E v =
           (True, \<lparr>found = 3, iface_num = n,
              out_ep = (if found v = 1 then out_ep v else bEndpointAddress (hd (filter bulk_out E))),
              in_ep = (if found v = 2 then in_ep v else bEndpointAddress (hd (filter bulk_in E)))\<rparr>)"
  using assms
proof (induction E arbitrary: v)
  case Nil
  from Nil.prems(2) have f1: "found v = 1"
    by (cases "found v = 1") simp_all
  from Nil.prems(3) have f2: "found v = 2"
    by (cases "found v = 2") simp_all
  from f1 f2 have False by arith
  then show ?case ..
next
  case (Cons ep E)
  consider (nb) "\<not> bulk_out ep" "\<not> bulk_in ep" "bmAttributes ep AND LIBUSB_TRANSFER_TYPE_MASK \<noteq> LIBUSB_TRANSFER_TYPE_BULK"
    | (odd) "\<not> bulk_out ep" "\<not> bulk_in ep" "bmAttributes ep AND LIBUSB_TRANSFER_TYPE_MASK = LIBUSB_TRANSFER_TYPE_BULK"
    | (out) "bulk_out ep" "\<not> bulk_in ep" 
    | (inn) "bulk_in ep" "\<not> bulk_out ep"
    using not_out_and_in[of ep] by blast
  then show ?case
  proof cases
    case nb
    then show ?thesis using Cons.prems Cons.IH[of v] by simp
  next
    case odd
    then have a: "bEndpointAddress ep AND LIBUSB_ENDPOINT_DIR_MASK \<noteq> LIBUSB_ENDPOINT_OUT"
      "bEndpointAddress ep AND LIBUSB_ENDPOINT_DIR_MASK \<noteq> LIBUSB_ENDPOINT_IN"
      by (auto simp: bulk_out_def bulk_in_def)
    show ?thesis using odd a Cons.prems Cons.IH[of "v\<lparr>iface_num := n\<rparr>"]
      by (auto simp: Let_def)
  next
    case out
    then have a: "bmAttributes ep AND LIBUSB_TRANSFER_TYPE_MASK = LIBUSB_TRANSFER_TYPE_BULK"
      "bEndpointAddress ep AND LIBUSB_ENDPOINT_DIR_MASK = LIBUSB_ENDPOINT_OUT"
      "bEndpointAddress ep AND LIBUSB_ENDPOINT_DIR_MASK \<noteq> LIBUSB_ENDPOINT_IN"
      by (auto simp: bulk_out_def bulk_in_def)
    from out Cons.prems have f: "found v = 0 \<or> found v = 2" and e: "filter bulk_out E = []"
      by (auto split: if_splits)
    from f show ?thesis
    proof
      assume f0: "found v = 0"
      show ?thesis
        using out a f0 e Cons.prems
          Cons.IH[of "v\<lparr>iface_num := n, out_ep := bEndpointAddress ep, found := 1\<rparr>"]
        by (simp add: Let_def)
    next
      assume f2: "found v = 2"
      show ?thesis
        using out a f2 e Cons.prems by (simp add: Let_def)
    qed
  next
    case inn
    then have a: "bmAttributes ep AND LIBUSB_TRANSFER_TYPE_MASK = LIBUSB_TRANSFER_TYPE_BULK"
      "bEndpointAddress ep AND LIBUSB_ENDPOINT_DIR_MASK = LIBUSB_ENDPOINT_IN"
      "bEndpointAddress ep AND LIBUSB_ENDPOINT_DIR_MASK \<noteq> LIBUSB_ENDPOINT_OUT"
      by (auto simp: bulk_out_def bulk_in_def)
    from inn Cons.prems have f: "found v = 0 \<or> found v = 1" and e: "filter bulk_in E = []"
      by (auto split: if_splits)
    from f show ?thesis
    proof
      assume f0: "found v = 0"
      show ?thesis
        using inn a f0 e Cons.prems
          Cons.IH[of "v\<lparr>iface_num := n, in_ep := bEndpointAddress ep, found := 2\<rparr>"]
        by (simp add: Let_def)
    next
      assume f1: "found v = 1"
      show ?thesis
        using inn a f1 e Cons.prems by (simp add: Let_def)
    qed
  qed
qed

lemma scan_endpoints_missing:
  assumes "(filter bulk_out E = [] \<and> (found v = 0 \<or> found v = 2)) \<or>
           (filter bulk_in E = [] \<and> (found v = 0 \<or> found v = 1))"
  shows "fst (scan_endpoints n E v) = False"
  using assms
proof (induction E arbitrary: v)
  case Nil
  show ?case by simp
next
  case (Cons ep E)
  show ?case
  proof (cases "bmAttributes ep AND LIBUSB_TRANSFER_TYPE_MASK = LIBUSB_TRANSFER_TYPE_BULK")
    case False
    then have "\<not> bulk_out ep" "\<not> bulk_in ep" by (simp_all add: bulk_out_def bulk_in_def)
    then show ?thesis using False Cons.prems Cons.IH[of v] by simp
  next
    case True
    let ?o = "bEndpointAddress ep AND LIBUSB_ENDPOINT_DIR_MASK = LIBUSB_ENDPOINT_OUT"
    let ?i = "bEndpointAddress ep AND LIBUSB_ENDPOINT_DIR_MASK = LIBUSB_ENDPOINT_IN"
    have oi: "\<not> (?o \<and> ?i)"
      by (auto simp: LIBUSB_ENDPOINT_OUT_def LIBUSB_ENDPOINT_IN_def)
    have bo: "bulk_out ep \<longleftrightarrow> ?o" and bi: "bulk_in ep \<longleftrightarrow> ?i"
      using True by (simp_all add: bulk_out_def bulk_in_def)
    consider (o) ?o "\<not> ?i" | (i) ?i "\<not> ?o" | (n) "\<not> ?o" "\<not> ?i" using oi by blast
    then show ?thesis
    proof cases
      case o
      with bo bi Cons.prems have p: "filter bulk_in E = []" "found v = 0 \<or> found v = 1"
        by auto
      then show ?thesis
        using True o Cons.IH[of "v\<lparr>iface_num := n, out_ep := bEndpointAddress ep, found := 1\<rparr>"]
        by (auto simp: Let_def)
    next
      case i
      with bo bi Cons.prems have p: "filter bulk_out E = []" "found v = 0 \<or> found v = 2"
        by auto
      then show ?thesis
        using True i Cons.IH[of "v\<lparr>iface_num := n, in_ep := bEndpointAddress ep, found := 2\<rparr>"]
        by (auto simp: Let_def)
    next
      case n
      with bo bi Cons.prems show ?thesis
        using True Cons.IH[of "v\<lparr>iface_num := n\<rparr>"]
        by (auto simp: Let_def)
    qed
  qed
qed

text \<open>
  Claim C1. Take the endpoints of all descriptors whose \<^verbatim>\<open>bInterfaceNumber\<close> is 1. If
  exactly one of them is a bulk endpoint with direction OUT and exactly one is a bulk
  endpoint with direction IN, then, whatever other endpoints and other interfaces the
  configuration has and whatever the three locations held before,
  \<^verbatim>\<open>Switch2_BulkUSB_FindEndpoints\<close> returns true and leaves interface number 1, the address
  of that OUT endpoint and the address of that IN endpoint in them. If interface 1 has no
  bulk OUT endpoint or no bulk IN endpoint, it returns false.
\<close>

theorem FindEndpoints_pair:
  "(filter bulk_out (interface1_endpoints config) = [eo] \<and>
    filter bulk_in (interface1_endpoints config) = [ei] \<longrightarrow>
      Switch2_BulkUSB_FindEndpoints (Some config) (n0, o0, i0) =
        (True, 1, bEndpointAddress eo, bEndpointAddress ei)) \<and>
   (filter bulk_out (interface1_endpoints config) = [] \<or>
    filter bulk_in (interface1_endpoints config) = [] \<longrightarrow>
      fst (Switch2_BulkUSB_FindEndpoints (Some config) (n0, o0, i0)) = False)"
proof (intro conjI impI)
  assume a: "filter bulk_out (interface1_endpoints config) = [eo] \<and>
    filter bulk_in (interface1_endpoints config) = [ei]"
  let ?v = "\<lparr>found = 0, iface_num = n0, out_ep = o0, in_ep = i0\<rparr>"
  have "scan_endpoints 1 (interface1_endpoints config) ?v =
      (True, \<lparr>found = 3, iface_num = 1, out_ep = bEndpointAddress eo, in_ep = bEndpointAddress ei\<rparr>)"
    using a scan_endpoints_pair[of ?v "interface1_endpoints config" 1] by simp
  then show "Switch2_BulkUSB_FindEndpoints (Some config) (n0, o0, i0) =
        (True, 1, bEndpointAddress eo, bEndpointAddress ei)"
    by (simp add: Switch2_BulkUSB_FindEndpoints_def scan_interfaces_flat interface1_endpoints_def)
next
  assume a: "filter bulk_out (interface1_endpoints config) = [] \<or>
    filter bulk_in (interface1_endpoints config) = []"
  let ?v = "\<lparr>found = 0, iface_num = n0, out_ep = o0, in_ep = i0\<rparr>"
  have "fst (scan_endpoints 1 (interface1_endpoints config) ?v) = False"
    using a scan_endpoints_missing[of "interface1_endpoints config" ?v 1] by auto
  then show "fst (Switch2_BulkUSB_FindEndpoints (Some config) (n0, o0, i0)) = False"
    by (simp add: Switch2_BulkUSB_FindEndpoints_def scan_interfaces_flat interface1_endpoints_def
        case_prod_beta)
qed

theorem FindEndpoints_pair_witness:
  "filter bulk_out (interface1_endpoints composite_config) =
     [\<lparr>bEndpointAddress = 0x02, bmAttributes = 2\<rparr>] \<and>
   filter bulk_in (interface1_endpoints composite_config) =
     [\<lparr>bEndpointAddress = 0x82, bmAttributes = 2\<rparr>] \<and>
   Switch2_BulkUSB_FindEndpoints (Some composite_config) (0, 0, 0) = (True, 1, 0x02, 0x82) \<and>
   filter bulk_out (interface1_endpoints hid_only_config) = [] \<and>
   fst (Switch2_BulkUSB_FindEndpoints (Some hid_only_config) (7, 7, 7)) = False"
  using FindEndpoints_pair
      [of composite_config "\<lparr>bEndpointAddress = 0x02, bmAttributes = 2\<rparr>"
          "\<lparr>bEndpointAddress = 0x82, bmAttributes = 2\<rparr>" 0 0 0]
    FindEndpoints_pair
      [of hid_only_config "\<lparr>bEndpointAddress = 0, bmAttributes = 0\<rparr>"
          "\<lparr>bEndpointAddress = 0, bmAttributes = 0\<rparr>" 7 7 7]
  by (simp add: composite_config_def hid_only_config_def interface1_endpoints_def
      bulk_out_def bulk_in_def LIBUSB_TRANSFER_TYPE_MASK_def LIBUSB_TRANSFER_TYPE_BULK_def
      LIBUSB_ENDPOINT_DIR_MASK_def LIBUSB_ENDPOINT_OUT_def LIBUSB_ENDPOINT_IN_def)

section \<open>Read and Write: proofs\<close>

lemma libusb_read_loop_trace:
  assumes "libusb_read_loop io bulk i off size_v total_v buf log = Some y"
  shows "\<exists>sfx. snd (snd y) = log @ sfx \<and> read_trace size_v total_v sfx (fst y)"
proof (induct rule: libusb_read_loop.raw_induct [OF _ assms])
  case (1 loop io bulk i off size_v total_v buf log y)
  obtain ret buf' log' where y: "y = (ret, buf', log')" by (cases y) auto
  have "\<exists>sfx. log' = log @ sfx \<and> read_trace size_v total_v sfx ret"
  proof (cases "0 < size_v")
    case False
    with 1(2) y show ?thesis by (auto simp: word_greater_zero_iff)
  next
    case True
    let ?chunk = "if 64 < size_v then 64 else size_v"
    obtain res transferred b' where bt:
      "bulk_transfer io i (in_endpoint bulk) off ?chunk 500 buf = (res, transferred, b')"
      by (cases "bulk_transfer io i (in_endpoint bulk) off ?chunk 500 buf") auto
    let ?e = "Libusb_bulk_transfer (device_handle bulk) (in_endpoint bulk) off ?chunk 500 res transferred"
    show ?thesis
    proof (cases "res < 0")
      case neg: True
      with True bt 1(2) y have "log' = log @ [?e]" by (auto simp: Let_def)
      moreover have "read_trace size_v total_v [?e] ret"
        using neg True by (simp add: word_greater_zero_iff)
      ultimately show ?thesis by blast
    next
      case nonneg: False
      show ?thesis
      proof (cases "transferred < ?chunk")
        case short: True
        with nonneg True bt 1(2) y have "log' = log @ [?e]" "ret = sint (total_v + transferred)"
          by (auto simp: Let_def)
        moreover have "read_trace size_v total_v [?e] (sint (total_v + transferred))"
          using nonneg short True by (simp add: word_greater_zero_iff)
        ultimately show ?thesis by blast
      next
        case full: False
        with nonneg True bt 1(2) y have
          "loop io bulk (i + 1) (off + unat ?chunk) (size_v - transferred) (total_v + transferred) b' (log @ [?e]) = Some (ret, buf', log')"
          by (auto simp: Let_def)
        from 1(1)[OF this] obtain sfx where
          s: "log' = (log @ [?e]) @ sfx" "read_trace (size_v - transferred) (total_v + transferred) sfx ret"
          by auto
        have "read_trace size_v total_v (?e # sfx) ret"
          using nonneg full True s(2) by (simp add: word_greater_zero_iff)
        with s(1) show ?thesis by auto
      qed
    qed
  qed
  with y show ?case by simp
qed

lemma winusb_read_loop_trace:
  assumes "winusb_read_loop io bulk i off size_v total_v buf log = Some y"
  shows "\<exists>sfx. snd (snd y) = log @ sfx \<and> read_trace size_v total_v sfx (fst y)"
proof (induct rule: winusb_read_loop.raw_induct [OF _ assms])
  case (1 loop io bulk i off size_v total_v buf log y)
  obtain ret buf' log' where y: "y = (ret, buf', log')" by (cases y) auto
  have "\<exists>sfx. log' = log @ sfx \<and> read_trace size_v total_v sfx ret"
  proof (cases "0 < size_v")
    case False
    with 1(2) y show ?thesis by (auto simp: word_greater_zero_iff)
  next
    case True
    let ?chunk = "if 64 < size_v then 64 else size_v"
    obtain r b' where rp:
      "ReadPipe io i (winusb_in_pipe bulk) off ?chunk buf = (r, b')"
      by (cases "ReadPipe io i (winusb_in_pipe bulk) off ?chunk buf") auto
    let ?e = "WinUsb_ReadPipe (winusb_handle bulk) (winusb_in_pipe bulk) off ?chunk r"
    let ?a = "WinUsb_AbortPipe (winusb_handle bulk) (winusb_in_pipe bulk)"
    have step: "\<exists>sfx. log' = log @ sfx \<and> read_trace size_v total_v sfx ret"
      if r: "io_count r = Some transferred" for transferred
    proof (cases "transferred < ?chunk")
      case short: True
      with r True rp 1(2) y have "log' = log @ [?e]" "ret = sint (total_v + transferred)"
        by (cases r; auto simp: Let_def)+
      moreover have "read_trace size_v total_v [?e] (sint (total_v + transferred))"
        using r short True by (simp add: word_greater_zero_iff)
      ultimately show ?thesis by blast
    next
      case full: False
      with r True rp 1(2) y have
        "loop io bulk (i + 1) (off + unat ?chunk) (size_v - transferred) (total_v + transferred)
           b' (log @ [?e]) = Some (ret, buf', log')"
        by (cases r; auto simp: Let_def)
      from 1(1)[OF this] obtain sfx where
        s: "log' = (log @ [?e]) @ sfx"
           "read_trace (size_v - transferred) (total_v + transferred) sfx ret"
        by auto
      have "read_trace size_v total_v (?e # sfx) ret"
        using r full True s(2) by (simp add: word_greater_zero_iff)
      with s(1) show ?thesis by auto
    qed
    show ?thesis
    proof (cases r)
      case EventCreateFailed
      with True rp 1(2) y have "log' = log @ [CreateEventW_failed]" by (auto simp: Let_def)
      moreover have "read_trace size_v total_v [CreateEventW_failed] ret"
        using True by (simp add: word_greater_zero_iff)
      ultimately show ?thesis by blast
    next
      case (IoCompleted n)
      then show ?thesis using step[of n] by simp
    next
      case (IoPendingSignaled n)
      then show ?thesis using step[of n] by simp
    next
      case IoPendingTimedOut
      with True rp 1(2) y have "log' = log @ [?e, ?a]" by (auto simp: Let_def)
      moreover have "read_trace size_v total_v [?e, ?a] ret"
        using True IoPendingTimedOut by (simp add: word_greater_zero_iff)
      ultimately show ?thesis by blast
    next
      case IoFailed
      with True rp 1(2) y have "log' = log @ [?e]" by (auto simp: Let_def)
      moreover have "read_trace size_v total_v [?e] ret"
        using True IoFailed by (simp add: word_greater_zero_iff)
      ultimately show ?thesis by blast
    qed
  qed
  with y show ?case by simp
qed

lemma chunk_bounds:
  fixes s :: u32
  assumes "s \<noteq> 0"
  shows "(if 64 < s then 64 else s) \<le> 64" and "(if 64 < s then 64 else s) \<noteq> 0"
    and "(if 64 < s then 64 else s) = min 64 s"
  using assms by (auto simp: min_def)

lemma transfers_Cons:
  "transfers (e # es) = (if is_transfer e then e # transfers es else transfers es)"
  by (simp add: transfers_def)

lemma transfers_none: "(\<forall>e \<in> set es. \<not> is_transfer e) \<Longrightarrow> transfers es = []"
  by (simp add: transfers_def)

lemma read_trace_requested:
  "read_trace s t L ret \<Longrightarrow> e \<in> set (transfers L) \<Longrightarrow> requested e \<le> 64 \<and> requested e \<noteq> 0"
proof (induction L arbitrary: s t)
  case Nil
  then show ?case by (simp add: transfers_def)
next
  case (Cons e0 es)
  from Cons.prems(1) have s0: "s \<noteq> 0" by simp
  show ?case
  proof (cases "is_transfer e0 \<and> succeeded e0")
    case True
    with Cons.prems(1) have rq: "requested e0 = (if 64 < s then 64 else s)" by simp
    show ?thesis
    proof (cases "e = e0")
      case True
      with rq chunk_bounds[OF s0] show ?thesis by simp
    next
      case False
      with Cons.prems(2) True have m: "e \<in> set (transfers es)" by (simp add: transfers_Cons)
      then have "es \<noteq> []" by (auto simp: transfers_def)
      with Cons.prems(1) True
      have "read_trace (s - delivered e0) (t + delivered e0) es ret"
        by (simp split: if_splits)
      from Cons.IH[OF this m] show ?thesis .
    qed
  next
    case False
    with Cons.prems(1) have n: "transfers es = []" and
      rq: "is_transfer e0 \<longrightarrow> requested e0 = (if 64 < s then 64 else s)"
      by (auto intro: transfers_none)
    with Cons.prems(2) have "e = e0" "is_transfer e0"
      by (auto simp: transfers_Cons split: if_splits)
    with rq chunk_bounds[OF s0] show ?thesis by simp
  qed
qed

lemma read_trace_butlast:
  "read_trace s t L ret \<Longrightarrow> e \<in> set (butlast (transfers L)) \<Longrightarrow>
     succeeded e \<and> \<not> delivered e < requested e"
proof (induction L arbitrary: s t)
  case Nil
  then show ?case by (simp add: transfers_def)
next
  case (Cons e0 es)
  show ?case
  proof (cases "is_transfer e0 \<and> succeeded e0")
    case True
    from Cons.prems(2) True have ne: "transfers es \<noteq> []"
      by (auto simp: transfers_Cons split: if_splits)
    then have "es \<noteq> []" by (auto simp: transfers_def)
    with Cons.prems(1) True
    have full: "\<not> delivered e0 < requested e0"
      and rest: "read_trace (s - delivered e0) (t + delivered e0) es ret"
      by (simp_all split: if_splits)
    from Cons.prems(2) True ne have "e = e0 \<or> e \<in> set (butlast (transfers es))"
      by (simp add: transfers_Cons)
    then show ?thesis
    proof
      assume "e = e0"
      with True full show ?thesis by simp
    next
      assume "e \<in> set (butlast (transfers es))"
      from Cons.IH[OF rest this] show ?thesis .
    qed
  next
    case False
    with Cons.prems(1) have n: "transfers es = []"
      by (auto intro: transfers_none)
    with Cons.prems(2) show ?thesis by (simp add: transfers_Cons split: if_splits)
  qed
qed

lemma read_trace_chunks:
  "read_trace s t L ret \<Longrightarrow> k < length (transfers L) \<Longrightarrow>
     s - sum_list (map delivered (take k (transfers L))) \<noteq> 0 \<and>
     requested (transfers L ! k) = min 64 (s - sum_list (map delivered (take k (transfers L))))"
proof (induction L arbitrary: s t k)
  case Nil
  then show ?case by (simp add: transfers_def)
next
  case (Cons e0 es)
  from Cons.prems(1) have s0: "s \<noteq> 0" by simp
  show ?case
  proof (cases "is_transfer e0 \<and> succeeded e0")
    case True
    with Cons.prems(1) have rq: "requested e0 = (if 64 < s then 64 else s)" by simp
    show ?thesis
    proof (cases k)
      case 0
      with True rq s0 chunk_bounds(3)[OF s0] show ?thesis by (simp add: transfers_Cons)
    next
      case (Suc k')
      with Cons.prems(2) True have k': "k' < length (transfers es)"
        by (simp add: transfers_Cons)
      then have "es \<noteq> []" by (auto simp: transfers_def)
      with Cons.prems(1) True
      have rest: "read_trace (s - delivered e0) (t + delivered e0) es ret"
        by (simp split: if_splits)
      let ?X = "sum_list (map delivered (take k' (transfers es)))"
      have nth: "transfers (e0 # es) ! k = transfers es ! k'"
        using Suc True by (simp add: transfers_Cons)
      have "take k (transfers (e0 # es)) = e0 # take k' (transfers es)"
        using Suc True by (simp add: transfers_Cons)
      then have rem: "s - sum_list (map delivered (take k (transfers (e0 # es)))) =
          s - delivered e0 - ?X"
        by (simp add: diff_diff_eq)
      from Cons.IH[OF rest k'] show ?thesis
        unfolding rem nth by simp
    qed
  next
    case False
    with Cons.prems(1) have n: "transfers es = []" and
      rq: "is_transfer e0 \<longrightarrow> requested e0 = (if 64 < s then 64 else s)"
      by (auto intro: transfers_none)
    with Cons.prems(2) have "k = 0" "is_transfer e0"
      by (auto simp: transfers_Cons split: if_splits)
    with rq n s0 chunk_bounds(3)[OF s0] show ?thesis by (simp add: transfers_Cons)
  qed
qed

lemma read_trace_result:
  "read_trace s t L ret \<Longrightarrow> \<forall>e \<in> set L. is_transfer e \<and> succeeded e \<Longrightarrow>
     ret = sint (t + sum_list (map delivered L)) \<and>
     ((L \<noteq> [] \<and> delivered (last L) < requested (last L)) \<or>
      s - sum_list (map delivered L) = 0)"
proof (induction L arbitrary: s t)
  case Nil
  then show ?case by simp
next
  case (Cons e0 es)
  then have ok: "is_transfer e0 \<and> succeeded e0" by simp
  show ?case
  proof (cases "delivered e0 < requested e0")
    case True
    with Cons.prems(1) ok show ?thesis by simp
  next
    case False
    with Cons.prems(1) ok
    have rest: "read_trace (s - delivered e0) (t + delivered e0) es ret" by simp
    from Cons.prems(2) have "\<forall>e \<in> set es. is_transfer e \<and> succeeded e" by simp
    from Cons.IH[OF rest this]
    have r: "ret = sint (t + delivered e0 + sum_list (map delivered es))"
      and d: "(es \<noteq> [] \<and> delivered (last es) < requested (last es)) \<or>
              s - delivered e0 - sum_list (map delivered es) = 0"
      by simp_all
    have a: "s - (delivered e0 + x) = s - delivered e0 - x" for x by simp
    from r d show ?thesis by (auto simp: add.assoc a)
  qed
qed

lemma Read_trace:
  assumes "Switch2_BulkUSB_Read win32 io bulk data size_v = Some (ret, data', log)"
  shows "read_trace size_v 0 log ret"
proof (cases "win32 \<and> use_winusb bulk")
  case True
  with assms have "winusb_read_loop io bulk 0 0 size_v 0 data [] = Some (ret, data', log)"
    by (simp add: Switch2_BulkUSB_Read_def Switch2_BulkUSB_WinUSB_Read_def)
  from winusb_read_loop_trace[OF this] show ?thesis by simp
next
  case False
  with assms have "libusb_read_loop io bulk 0 0 size_v 0 data [] = Some (ret, data', log)"
    by (simp add: Switch2_BulkUSB_Read_def)
  from libusb_read_loop_trace[OF this] show ?thesis by simp
qed

lemma libusb_attempt:
  assumes "read_attempt False io bulk i off s buf = (e, b')"
  obtains res n where
    "bulk_transfer io i (in_endpoint bulk) off (if 64 < s then 64 else s) 500 buf = (res, n, b')"
    "e = Libusb_bulk_transfer (device_handle bulk) (in_endpoint bulk) off
           (if 64 < s then 64 else s) 500 res n"
proof -
  obtain res n b where bt:
    "bulk_transfer io i (in_endpoint bulk) off (if 64 < s then 64 else s) 500 buf = (res, n, b)"
    by (cases "bulk_transfer io i (in_endpoint bulk) off (if 64 < s then 64 else s) 500 buf") auto
  with assms have "b = b'"
    "e = Libusb_bulk_transfer (device_handle bulk) (in_endpoint bulk) off
           (if 64 < s then 64 else s) 500 res n"
    by (auto simp: read_attempt_def Let_def)
  with bt that show thesis by blast
qed

lemma winusb_attempt:
  assumes "read_attempt True io bulk i off s buf = (e, b')"
  obtains r where
    "ReadPipe io i (winusb_in_pipe bulk) off (if 64 < s then 64 else s) buf = (r, b')"
    "e = WinUsb_ReadPipe (winusb_handle bulk) (winusb_in_pipe bulk) off
           (if 64 < s then 64 else s) r"
proof -
  obtain r b where rp:
    "ReadPipe io i (winusb_in_pipe bulk) off (if 64 < s then 64 else s) buf = (r, b)"
    by (cases "ReadPipe io i (winusb_in_pipe bulk) off (if 64 < s then 64 else s) buf") auto
  with assms have "b = b'"
    "e = WinUsb_ReadPipe (winusb_handle bulk) (winusb_in_pipe bulk) off
           (if 64 < s then 64 else s) r"
    by (auto simp: read_attempt_def Let_def)
  with rp that show thesis by blast
qed

lemma libusb_step:
  assumes s: "0 < s" and a: "read_attempt False io bulk i off s buf = (e, b')"
  shows "succeeded e \<and> \<not> delivered e < requested e \<longrightarrow>
           libusb_read_loop io bulk i off s t buf log =
             libusb_read_loop io bulk (Suc i) (off + unat (requested e)) (s - delivered e)
               (t + delivered e) b' (log @ [e])"
    and "succeeded e \<and> delivered e < requested e \<longrightarrow>
           libusb_read_loop io bulk i off s t buf log =
             Some (sint (t + delivered e), b', log @ [e])"
    and "\<not> succeeded e \<longrightarrow> libusb_read_loop io bulk i off s t buf log \<noteq> None"
proof -
  from a obtain res n where bt:
    "bulk_transfer io i (in_endpoint bulk) off (if 64 < s then 64 else s) 500 buf = (res, n, b')"
    and e: "e = Libusb_bulk_transfer (device_handle bulk) (in_endpoint bulk) off
           (if 64 < s then 64 else s) 500 res n"
    by (rule libusb_attempt)
  show "succeeded e \<and> \<not> delivered e < requested e \<longrightarrow>
           libusb_read_loop io bulk i off s t buf log =
             libusb_read_loop io bulk (Suc i) (off + unat (requested e)) (s - delivered e)
               (t + delivered e) b' (log @ [e])"
    using s bt unfolding e by (subst libusb_read_loop.simps) (auto simp: Let_def)
  show "succeeded e \<and> delivered e < requested e \<longrightarrow>
           libusb_read_loop io bulk i off s t buf log =
             Some (sint (t + delivered e), b', log @ [e])"
    using s bt unfolding e by (subst libusb_read_loop.simps) (auto simp: Let_def)
  show "\<not> succeeded e \<longrightarrow> libusb_read_loop io bulk i off s t buf log \<noteq> None"
    using s bt unfolding e by (subst libusb_read_loop.simps) (auto simp: Let_def)
qed

lemma winusb_step:
  assumes s: "0 < s" and a: "read_attempt True io bulk i off s buf = (e, b')"
  shows "succeeded e \<and> \<not> delivered e < requested e \<longrightarrow>
           winusb_read_loop io bulk i off s t buf log =
             winusb_read_loop io bulk (Suc i) (off + unat (requested e)) (s - delivered e)
               (t + delivered e) b' (log @ [e])"
    and "succeeded e \<and> delivered e < requested e \<longrightarrow>
           winusb_read_loop io bulk i off s t buf log =
             Some (sint (t + delivered e), b', log @ [e])"
    and "\<not> succeeded e \<longrightarrow> winusb_read_loop io bulk i off s t buf log \<noteq> None"
proof -
  from a obtain r where rp:
    "ReadPipe io i (winusb_in_pipe bulk) off (if 64 < s then 64 else s) buf = (r, b')"
    and e: "e = WinUsb_ReadPipe (winusb_handle bulk) (winusb_in_pipe bulk) off
           (if 64 < s then 64 else s) r"
    by (rule winusb_attempt)
  show "succeeded e \<and> \<not> delivered e < requested e \<longrightarrow>
           winusb_read_loop io bulk i off s t buf log =
             winusb_read_loop io bulk (Suc i) (off + unat (requested e)) (s - delivered e)
               (t + delivered e) b' (log @ [e])"
    using s rp unfolding e by (subst winusb_read_loop.simps) (cases r; auto simp: Let_def)
  show "succeeded e \<and> delivered e < requested e \<longrightarrow>
           winusb_read_loop io bulk i off s t buf log =
             Some (sint (t + delivered e), b', log @ [e])"
    using s rp unfolding e by (subst winusb_read_loop.simps) (cases r; auto simp: Let_def)
  show "\<not> succeeded e \<longrightarrow> winusb_read_loop io bulk i off s t buf log \<noteq> None"
    using s rp unfolding e by (subst winusb_read_loop.simps) (cases r; auto simp: Let_def)
qed

lemma read_attempt_requested:
  assumes "read_attempt native io bulk i off s buf = (e, b')"
  shows "requested e = (if 64 < s then 64 else s)" and "requested e \<le> 64"
    and "is_transfer e"
proof -
  have "requested e = (if 64 < s then 64 else s) \<and> is_transfer e"
  proof (cases native)
    case True
    with assms have "read_attempt True io bulk i off s buf = (e, b')" by simp
    then show ?thesis by (rule winusb_attempt) simp
  next
    case False
    with assms have "read_attempt False io bulk i off s buf = (e, b')" by simp
    then show ?thesis by (rule libusb_attempt) simp
  qed
  then show "requested e = (if 64 < s then 64 else s)" and "is_transfer e" by simp_all
  then show "requested e \<le> 64" by auto
qed

lemma read_loop_state_Suc:
  assumes "read_loop_state native io bulk data size_v (Suc k) = Some st"
  obtains off s t buf log e b' where
    "read_loop_state native io bulk data size_v k = Some (off, s, t, buf, log)"
    "read_attempt native io bulk k off s buf = (e, b')"
    "0 < s" "succeeded e" "\<not> delivered e < requested e"
    "st = (off + unat (requested e), s - delivered e, t + delivered e, b', log @ [e])"
proof -
  from assms obtain st0 where s0: "read_loop_state native io bulk data size_v k = Some st0"
    by (cases "read_loop_state native io bulk data size_v k") auto
  obtain off s t buf log where st0: "st0 = (off, s, t, buf, log)" by (cases st0) auto
  obtain e b' where a: "read_attempt native io bulk k off s buf = (e, b')"
    by (cases "read_attempt native io bulk k off s buf") auto
  from assms s0 st0 a have c: "0 < s \<and> succeeded e \<and> \<not> delivered e < requested e"
    by (auto split: if_splits)
  with assms s0 st0 a
  have "st = (off + unat (requested e), s - delivered e, t + delivered e, b', log @ [e])"
    by simp
  with that s0 st0 a c show thesis by blast
qed

lemma read_reaches:
  assumes "read_loop_state native io bulk data size_v k = Some st"
  shows "read_loop_from native io bulk 0 (0, size_v, 0, data, []) =
         read_loop_from native io bulk k st"
  using assms
proof (induction k arbitrary: st)
  case 0
  then show ?case by simp
next
  case (Suc k)
  from Suc.prems obtain off s t buf log e b' where
    st0: "read_loop_state native io bulk data size_v k = Some (off, s, t, buf, log)"
    and a: "read_attempt native io bulk k off s buf = (e, b')"
    and s: "0 < s" and ok: "succeeded e \<and> \<not> delivered e < requested e"
    and st: "st = (off + unat (requested e), s - delivered e, t + delivered e, b', log @ [e])"
    by (rule read_loop_state_Suc) blast
  have "read_loop_from native io bulk k (off, s, t, buf, log) =
      read_loop_from native io bulk (Suc k) st"
  proof (cases native)
    case True
    with a have "read_attempt True io bulk k off s buf = (e, b')" by simp
    from winusb_step(1)[OF s this] ok True show ?thesis by (simp add: read_loop_from_def st)
  next
    case False
    with a have "read_attempt False io bulk k off s buf = (e, b')" by simp
    from libusb_step(1)[OF s this] ok False show ?thesis by (simp add: read_loop_from_def st)
  qed
  with Suc.IH[OF st0] show ?case by simp
qed

lemma read_loop_state_invariant:
  assumes "read_loop_state native io bulk data size_v k = Some (off, s, t, buf, log)"
  shows "length log = k \<and> t = sum_list (map delivered log) \<and>
         s = size_v - sum_list (map delivered log) \<and>
         (\<forall>x \<in> set log. is_transfer x \<and> succeeded x \<and> requested x \<le> 64 \<and>
                         \<not> delivered x < requested x)"
  using assms
proof (induction k arbitrary: off s t buf log)
  case 0
  then show ?case by simp
next
  case (Suc k)
  from Suc.prems obtain off0 s0 t0 buf0 log0 e b' where
    st0: "read_loop_state native io bulk data size_v k = Some (off0, s0, t0, buf0, log0)"
    and a: "read_attempt native io bulk k off0 s0 buf0 = (e, b')"
    and ok: "succeeded e" "\<not> delivered e < requested e"
    and st: "(off, s, t, buf, log) =
       (off0 + unat (requested e), s0 - delivered e, t0 + delivered e, b', log0 @ [e])"
    by (rule read_loop_state_Suc) blast
  from st have r: "s = s0 - delivered e" "t = t0 + delivered e" "log = log0 @ [e]"
    by simp_all
  from Suc.IH[OF st0] r ok read_attempt_requested(2,3)[OF a]
  show ?case by (simp add: diff_diff_eq)
qed

lemma Read_from:
  "Switch2_BulkUSB_Read win32 io bulk data size_v =
     read_loop_from (win32 \<and> use_winusb bulk) io bulk 0 (0, size_v, 0, data, [])"
  by (simp add: Switch2_BulkUSB_Read_def Switch2_BulkUSB_WinUSB_Read_def read_loop_from_def)

lemma Read_stops:
  assumes st: "read_loop_state (win32 \<and> use_winusb bulk) io bulk data size_v k =
                 Some (off, s, t, buf, log)"
    and a: "read_attempt (win32 \<and> use_winusb bulk) io bulk k off s buf = (e, buf')"
  shows "s = 0 \<longrightarrow> Switch2_BulkUSB_Read win32 io bulk data size_v = Some (sint t, buf, log)"
    and "s \<noteq> 0 \<and> succeeded e \<and> delivered e < requested e \<longrightarrow>
           Switch2_BulkUSB_Read win32 io bulk data size_v =
             Some (sint (t + delivered e), buf', log @ [e])"
    and "s \<noteq> 0 \<and> \<not> succeeded e \<longrightarrow> Switch2_BulkUSB_Read win32 io bulk data size_v \<noteq> None"
proof -
  let ?N = "win32 \<and> use_winusb bulk"
  have r: "Switch2_BulkUSB_Read win32 io bulk data size_v =
      read_loop_from ?N io bulk k (off, s, t, buf, log)"
    using read_reaches[OF st] by (simp add: Read_from)
  show "s = 0 \<longrightarrow> Switch2_BulkUSB_Read win32 io bulk data size_v = Some (sint t, buf, log)"
    unfolding r read_loop_from_def
    by (simp add: libusb_read_loop.simps winusb_read_loop.simps)
  have pos: "s \<noteq> 0 \<Longrightarrow> 0 < s" by (simp add: word_greater_zero_iff)
  show "s \<noteq> 0 \<and> succeeded e \<and> delivered e < requested e \<longrightarrow>
           Switch2_BulkUSB_Read win32 io bulk data size_v =
             Some (sint (t + delivered e), buf', log @ [e])"
  proof (cases ?N)
    case True
    with a have a': "read_attempt True io bulk k off s buf = (e, buf')" by simp
    show ?thesis
      using winusb_step(2)[OF pos a'] True unfolding r read_loop_from_def by auto
  next
    case False
    with a have a': "read_attempt False io bulk k off s buf = (e, buf')" by simp
    show ?thesis
      using libusb_step(2)[OF pos a'] False unfolding r read_loop_from_def by auto
  qed
  show "s \<noteq> 0 \<and> \<not> succeeded e \<longrightarrow> Switch2_BulkUSB_Read win32 io bulk data size_v \<noteq> None"
  proof (cases ?N)
    case True
    with a have a': "read_attempt True io bulk k off s buf = (e, buf')" by simp
    show ?thesis
      using winusb_step(3)[OF pos a'] True unfolding r read_loop_from_def by auto
  next
    case False
    with a have a': "read_attempt False io bulk k off s buf = (e, buf')" by simp
    show ?thesis
      using libusb_step(3)[OF pos a'] False unfolding r read_loop_from_def by auto
  qed
qed

lemma Read_returns:
  assumes "read_loop_state (win32 \<and> use_winusb bulk) io bulk data size_v k = None"
  shows "Switch2_BulkUSB_Read win32 io bulk data size_v \<noteq> None"
  using assms
proof (induction k)
  case 0
  then show ?case by simp
next
  case (Suc k)
  let ?N = "win32 \<and> use_winusb bulk"
  show ?case
  proof (cases "read_loop_state ?N io bulk data size_v k")
    case None
    then show ?thesis by (rule Suc.IH)
  next
    case (Some st0)
    obtain off s t buf log where st0: "st0 = (off, s, t, buf, log)" by (cases st0) auto
    obtain e b' where a: "read_attempt ?N io bulk k off s buf = (e, b')"
      by (cases "read_attempt ?N io bulk k off s buf") auto
    from Some st0 have st: "read_loop_state ?N io bulk data size_v k = Some (off, s, t, buf, log)"
      by simp
    from Suc.prems st a have "\<not> (0 < s \<and> succeeded e \<and> \<not> delivered e < requested e)"
      by (auto split: if_splits)
    then consider "s = 0" | "s \<noteq> 0" "\<not> succeeded e"
      | "s \<noteq> 0" "succeeded e" "delivered e < requested e"
      by (auto simp: word_greater_zero_iff)
    then show ?thesis
    proof cases
      case 1
      with Read_stops(1)[OF st a] show ?thesis by simp
    next
      case 2
      with Read_stops(3)[OF st a] show ?thesis by simp
    next
      case 3
      with Read_stops(2)[OF st a] show ?thesis by simp
    qed
  qed
qed

lemma scripted_libusb_stops:
  "read_loop_state False (scripted answers ends wr) bulk data size_v (Suc (length answers)) = None"
proof (cases "read_loop_state False (scripted answers ends wr) bulk data size_v (length answers)")
  case None
  then show ?thesis by simp
next
  case (Some st0)
  obtain off s t buf log where st0: "st0 = (off, s, t, buf, log)" by (cases st0) auto
  have "\<not> succeeded (fst (read_attempt False (scripted answers ends wr) bulk (length answers) off s buf))"
    by (simp add: read_attempt_def scripted_def LIBUSB_timeout_def LIBUSB_ERROR_TIMEOUT_def Let_def)
  with Some st0 show ?thesis by (auto split: prod.splits)
qed

lemma scripted_winusb_stops:
  "read_loop_state True (scripted answers ends wr) bulk data size_v (Suc (length ends)) = None"
proof (cases "read_loop_state True (scripted answers ends wr) bulk data size_v (length ends)")
  case None
  then show ?thesis by simp
next
  case (Some st0)
  obtain off s t buf log where st0: "st0 = (off, s, t, buf, log)" by (cases st0) auto
  have "\<not> succeeded (fst (read_attempt True (scripted answers ends wr) bulk (length ends) off s buf))"
    by (simp add: read_attempt_def scripted_def Let_def)
  with Some st0 show ?thesis by (auto split: prod.splits)
qed

lemma scripted_Read_returns:
  "Switch2_BulkUSB_Read win32 (scripted answers ends wr) bulk data size_v \<noteq> None"
proof (cases "win32 \<and> use_winusb bulk")
  case True
  then have n: "(win32 \<and> use_winusb bulk) = True" by simp
  show ?thesis
    by (rule Read_returns [of _ _ _ _ _ "Suc (length ends)"])
      (simp only: n scripted_winusb_stops)
next
  case False
  then have n: "(win32 \<and> use_winusb bulk) = False" by simp
  show ?thesis
    by (rule Read_returns [of _ _ _ _ _ "Suc (length answers)"])
      (simp only: n scripted_libusb_stops)
qed

text \<open>
  Claim C2. On either backend, whatever the device answers: a Read that returns has asked
  for at most 64 bytes in every transfer; the \<open>k\<close>-th transfer was made with bytes still
  to go and asked for the smaller of 64 and what was to go; every transfer but the last one
  succeeded and delivered no less than it asked for, so that no transfer follows a short
  one; and when all transfers succeeded the returned value is the sum of the delivered
  counts (accumulated in 32 bits and returned as \<^verbatim>\<open>int\<close>), and the last transfer was short
  or nothing is left to go.

  And the Read does return there. When the loop comes to its \<open>n\<close>-th iteration (after
  \<open>n\<close> transfers that succeeded and were not short) it has made exactly these \<open>n\<close>
  calls, \<^verbatim>\<open>total\<close> is the sum of their counts and \<^verbatim>\<open>size\<close> is the requested size less that
  sum; the transfer of this iteration asks for the smaller of 64 and \<^verbatim>\<open>size\<close>. If \<^verbatim>\<open>size\<close>
  is zero, Read returns \<^verbatim>\<open>total\<close> with no further call. If the transfer succeeds and is
  short, Read returns \<^verbatim>\<open>total\<close> plus its count, and this transfer is the last call. If the
  transfer fails Read returns as well. So Read returns whenever some iteration is not a
  successful transfer of a full chunk with bytes to go; in particular it returns for every
  scripted device and every size.

  A Read of 256 bytes answered by 64, 64, 64 and 30 bytes returns 222 after exactly four
  transfers, on libusb and on WinUSB.
\<close>

theorem Read_chunked:
  "(Switch2_BulkUSB_Read win32 io bulk data size_v = Some (ret, data', log) \<longrightarrow>
      (\<forall>e \<in> set (transfers log). requested e \<le> 64) \<and>
      (\<forall>k < length (transfers log).
          size_v - sum_list (map delivered (take k (transfers log))) \<noteq> 0 \<and>
          requested (transfers log ! k) =
            min 64 (size_v - sum_list (map delivered (take k (transfers log))))) \<and>
      (\<forall>e \<in> set (butlast (transfers log)). succeeded e \<and> \<not> delivered e < requested e) \<and>
      ((\<forall>e \<in> set log. is_transfer e \<and> succeeded e) \<longrightarrow>
          ret = sint (sum_list (map delivered log)) \<and>
          ((log \<noteq> [] \<and> delivered (last log) < requested (last log)) \<or>
           size_v - sum_list (map delivered log) = 0))) \<and>
   (read_loop_state (win32 \<and> use_winusb bulk) io bulk data size_v n = Some (off, s, t, buf, lg) \<and>
    read_attempt (win32 \<and> use_winusb bulk) io bulk n off s buf = (c, buf') \<longrightarrow>
      length lg = n \<and>
      t = sum_list (map delivered lg) \<and>
      s = size_v - sum_list (map delivered lg) \<and>
      (\<forall>x \<in> set lg. is_transfer x \<and> succeeded x \<and> requested x \<le> 64 \<and>
                      \<not> delivered x < requested x) \<and>
      requested c = min 64 s \<and>
      (s = 0 \<longrightarrow>
         Switch2_BulkUSB_Read win32 io bulk data size_v = Some (sint t, buf, lg)) \<and>
      (s \<noteq> 0 \<and> succeeded c \<and> delivered c < requested c \<longrightarrow>
         Switch2_BulkUSB_Read win32 io bulk data size_v =
           Some (sint (t + delivered c), buf', lg @ [c])) \<and>
      (s \<noteq> 0 \<and> \<not> succeeded c \<longrightarrow>
         (\<exists>r. Switch2_BulkUSB_Read win32 io bulk data size_v = Some r))) \<and>
   ((\<exists>m. read_loop_state (win32 \<and> use_winusb bulk) io bulk data size_v m = None) \<longrightarrow>
      (\<exists>r. Switch2_BulkUSB_Read win32 io bulk data size_v = Some r)) \<and>
   (\<exists>r. Switch2_BulkUSB_Read win32 (scripted answers ends wr) bulk data size_v = Some r) \<and>
   Switch2_BulkUSB_Read False (scripted [(0, 64), (0, 64), (0, 64), (0, 30)] [] IoFailed)
       libusb_bulk caller_buffer 256 =
     Some (222, caller_buffer,
       [Libusb_bulk_transfer (Some 2) 0x82 0 64 500 0 64,
        Libusb_bulk_transfer (Some 2) 0x82 64 64 500 0 64,
        Libusb_bulk_transfer (Some 2) 0x82 128 64 500 0 64,
        Libusb_bulk_transfer (Some 2) 0x82 192 64 500 0 30]) \<and>
   Switch2_BulkUSB_Read True
       (scripted [] [IoCompleted 64, IoPendingSignaled 64, IoCompleted 64, IoCompleted 30] IoFailed)
       winusb_bulk caller_buffer 256 =
     Some (222, caller_buffer,
       [WinUsb_ReadPipe (Some 4) 0x82 0 64 (IoCompleted 64),
        WinUsb_ReadPipe (Some 4) 0x82 64 64 (IoPendingSignaled 64),
        WinUsb_ReadPipe (Some 4) 0x82 128 64 (IoCompleted 64),
        WinUsb_ReadPipe (Some 4) 0x82 192 64 (IoCompleted 30)])"
proof (intro conjI impI)
  assume r: "Switch2_BulkUSB_Read win32 io bulk data size_v = Some (ret, data', log)"
  note t = Read_trace[OF r]
  show "\<forall>e \<in> set (transfers log). requested e \<le> 64"
    using read_trace_requested[OF t] by blast
  show "\<forall>k < length (transfers log).
          size_v - sum_list (map delivered (take k (transfers log))) \<noteq> 0 \<and>
          requested (transfers log ! k) =
            min 64 (size_v - sum_list (map delivered (take k (transfers log))))"
    using read_trace_chunks[OF t] by blast
  show "\<forall>e \<in> set (butlast (transfers log)). succeeded e \<and> \<not> delivered e < requested e"
    using read_trace_butlast[OF t] by blast
  assume ok: "\<forall>e \<in> set log. is_transfer e \<and> succeeded e"
  from read_trace_result[OF t ok]
  show "ret = sint (sum_list (map delivered log))"
    and "(log \<noteq> [] \<and> delivered (last log) < requested (last log)) \<or>
           size_v - sum_list (map delivered log) = 0"
    by simp_all
next
  assume reach:
    "read_loop_state (win32 \<and> use_winusb bulk) io bulk data size_v n = Some (off, s, t, buf, lg) \<and>
     read_attempt (win32 \<and> use_winusb bulk) io bulk n off s buf = (c, buf')"
  then have st: "read_loop_state (win32 \<and> use_winusb bulk) io bulk data size_v n =
                   Some (off, s, t, buf, lg)"
    and a: "read_attempt (win32 \<and> use_winusb bulk) io bulk n off s buf = (c, buf')"
    by simp_all
  note inv = read_loop_state_invariant[OF st]
  from inv show "length lg = n" by simp
  from inv show "t = sum_list (map delivered lg)" by simp
  from inv show "s = size_v - sum_list (map delivered lg)" by simp
  from inv show "\<forall>x \<in> set lg. is_transfer x \<and> succeeded x \<and> requested x \<le> 64 \<and>
                      \<not> delivered x < requested x" by simp
  from read_attempt_requested(1)[OF a] show "requested c = min 64 s"
    by (auto simp: min_def)
  {
    assume "s = 0"
    with Read_stops(1)[OF st a]
    show "Switch2_BulkUSB_Read win32 io bulk data size_v = Some (sint t, buf, lg)" by simp
  }
  {
    assume "s \<noteq> 0 \<and> succeeded c \<and> delivered c < requested c"
    with Read_stops(2)[OF st a]
    show "Switch2_BulkUSB_Read win32 io bulk data size_v =
           Some (sint (t + delivered c), buf', lg @ [c])" by simp
  }
  {
    assume "s \<noteq> 0 \<and> \<not> succeeded c"
    with Read_stops(3)[OF st a]
    show "\<exists>r. Switch2_BulkUSB_Read win32 io bulk data size_v = Some r" by simp
  }
next
  assume "\<exists>m. read_loop_state (win32 \<and> use_winusb bulk) io bulk data size_v m = None"
  then obtain m where "read_loop_state (win32 \<and> use_winusb bulk) io bulk data size_v m = None"
    by blast
  from Read_returns[OF this]
  show "\<exists>r. Switch2_BulkUSB_Read win32 io bulk data size_v = Some r" by simp
next
  from scripted_Read_returns[of win32 answers ends wr bulk data size_v]
  show "\<exists>r. Switch2_BulkUSB_Read win32 (scripted answers ends wr) bulk data size_v = Some r"
    by simp
next
  show "Switch2_BulkUSB_Read False (scripted [(0, 64), (0, 64), (0, 64), (0, 30)] [] IoFailed)
       libusb_bulk caller_buffer 256 =
     Some (222, caller_buffer,
       [Libusb_bulk_transfer (Some 2) 0x82 0 64 500 0 64,
        Libusb_bulk_transfer (Some 2) 0x82 64 64 500 0 64,
        Libusb_bulk_transfer (Some 2) 0x82 128 64 500 0 64,
        Libusb_bulk_transfer (Some 2) 0x82 192 64 500 0 30])"
    by (simp add: Switch2_BulkUSB_Read_def libusb_read_loop.simps scripted_def
        libusb_bulk_def empty_bulk_def)
next
  show "Switch2_BulkUSB_Read True
       (scripted [] [IoCompleted 64, IoPendingSignaled 64, IoCompleted 64, IoCompleted 30] IoFailed)
       winusb_bulk caller_buffer 256 =
     Some (222, caller_buffer,
       [WinUsb_ReadPipe (Some 4) 0x82 0 64 (IoCompleted 64),
        WinUsb_ReadPipe (Some 4) 0x82 64 64 (IoPendingSignaled 64),
        WinUsb_ReadPipe (Some 4) 0x82 128 64 (IoCompleted 64),
        WinUsb_ReadPipe (Some 4) 0x82 192 64 (IoCompleted 30)])"
    by (simp add: Switch2_BulkUSB_Read_def Switch2_BulkUSB_WinUSB_Read_def
        winusb_read_loop.simps scripted_def winusb_bulk_def empty_bulk_def)
qed

theorem Read_chunked_witness:
  "Switch2_BulkUSB_Read False (scripted [(0, 64), (0, 36)] [] IoFailed) libusb_bulk
       caller_buffer 100 =
     Some (100, caller_buffer,
       [Libusb_bulk_transfer (Some 2) 0x82 0 64 500 0 64,
        Libusb_bulk_transfer (Some 2) 0x82 64 36 500 0 36]) \<and>
   list_all (\<lambda>e. requested e \<le> 64)
     (transfers [Libusb_bulk_transfer (Some 2) 0x82 0 64 500 0 64,
                 Libusb_bulk_transfer (Some 2) 0x82 64 36 500 0 36]) \<and>
   (100 :: int) =
     sint (sum_list (map delivered
       [Libusb_bulk_transfer (Some 2) 0x82 0 64 500 0 64,
        Libusb_bulk_transfer (Some 2) 0x82 64 36 500 0 36])) \<and>
   (100 :: u32) -
     sum_list (map delivered
       [Libusb_bulk_transfer (Some 2) 0x82 0 64 500 0 64,
        Libusb_bulk_transfer (Some 2) 0x82 64 36 500 0 36]) = 0 \<and>
   read_loop_state False (scripted [(0, 64), (0, 64), (0, 64), (0, 10)] [] IoFailed)
       libusb_bulk caller_buffer 256 (Suc (Suc (Suc 0))) =
     Some (192, 64, 192, caller_buffer,
       [Libusb_bulk_transfer (Some 2) 0x82 0 64 500 0 64,
        Libusb_bulk_transfer (Some 2) 0x82 64 64 500 0 64,
        Libusb_bulk_transfer (Some 2) 0x82 128 64 500 0 64]) \<and>
   read_attempt False (scripted [(0, 64), (0, 64), (0, 64), (0, 10)] [] IoFailed)
       libusb_bulk (Suc (Suc (Suc 0))) 192 64 caller_buffer =
     (Libusb_bulk_transfer (Some 2) 0x82 192 64 500 0 10, caller_buffer) \<and>
   Switch2_BulkUSB_Read False (scripted [(0, 64), (0, 64), (0, 64), (0, 10)] [] IoFailed)
       libusb_bulk caller_buffer 256 =
     Some (202, caller_buffer,
       [Libusb_bulk_transfer (Some 2) 0x82 0 64 500 0 64,
        Libusb_bulk_transfer (Some 2) 0x82 64 64 500 0 64,
        Libusb_bulk_transfer (Some 2) 0x82 128 64 500 0 64,
        Libusb_bulk_transfer (Some 2) 0x82 192 64 500 0 10]) \<and>
   read_loop_state True (scripted [] [IoCompleted 64, IoPendingSignaled 36] IoFailed)
       winusb_bulk caller_buffer 100 (Suc (Suc 0)) =
     Some (100, 0, 100, caller_buffer,
       [WinUsb_ReadPipe (Some 4) 0x82 0 64 (IoCompleted 64),
        WinUsb_ReadPipe (Some 4) 0x82 64 36 (IoPendingSignaled 36)]) \<and>
   Switch2_BulkUSB_Read True (scripted [] [IoCompleted 64, IoPendingSignaled 36] IoFailed)
       winusb_bulk caller_buffer 100 =
     Some (100, caller_buffer,
       [WinUsb_ReadPipe (Some 4) 0x82 0 64 (IoCompleted 64),
        WinUsb_ReadPipe (Some 4) 0x82 64 36 (IoPendingSignaled 36)]) \<and>
   read_loop_state False (scripted [(0, 64), (- 1, 0)] [] IoFailed)
       libusb_bulk caller_buffer 128 (Suc (Suc 0)) = None \<and>
   (\<exists>r. Switch2_BulkUSB_Read False (scripted [(0, 64), (- 1, 0)] [] IoFailed)
       libusb_bulk caller_buffer 128 = Some r)"
proof -
  note libusb_eval = read_attempt_def scripted_def libusb_bulk_def empty_bulk_def
  note winusb_eval = read_attempt_def scripted_def winusb_bulk_def empty_bulk_def
  have a: "Switch2_BulkUSB_Read False (scripted [(0, 64), (0, 36)] [] IoFailed) libusb_bulk
       caller_buffer 100 =
     Some (100, caller_buffer,
       [Libusb_bulk_transfer (Some 2) 0x82 0 64 500 0 64,
        Libusb_bulk_transfer (Some 2) 0x82 64 36 500 0 36])"
    by (simp add: Switch2_BulkUSB_Read_def libusb_read_loop.simps scripted_def
        libusb_bulk_def empty_bulk_def)
  from a Read_chunked [of False "scripted [(0, 64), (0, 36)] [] IoFailed" libusb_bulk
      caller_buffer 100 100 caller_buffer
      "[Libusb_bulk_transfer (Some 2) 0x82 0 64 500 0 64,
        Libusb_bulk_transfer (Some 2) 0x82 64 36 500 0 36]"
      0 0 0 0 caller_buffer "[]" CreateFileW caller_buffer "[]" "[]" IoFailed]
  have b: "list_all (\<lambda>e. requested e \<le> 64)
     (transfers [Libusb_bulk_transfer (Some 2) 0x82 0 64 500 0 64,
                 Libusb_bulk_transfer (Some 2) 0x82 64 36 500 0 36]) \<and>
   (100 :: int) =
     sint (sum_list (map delivered
       [Libusb_bulk_transfer (Some 2) 0x82 0 64 500 0 64,
        Libusb_bulk_transfer (Some 2) 0x82 64 36 500 0 36])) \<and>
   (100 :: u32) -
     sum_list (map delivered
       [Libusb_bulk_transfer (Some 2) 0x82 0 64 500 0 64,
        Libusb_bulk_transfer (Some 2) 0x82 64 36 500 0 36]) = 0"
    by (simp add: transfers_def del: read_loop_state.simps)
  have s3: "read_loop_state False (scripted [(0, 64), (0, 64), (0, 64), (0, 10)] [] IoFailed)
       libusb_bulk caller_buffer 256 (Suc (Suc (Suc 0))) =
     Some (192, 64, 192, caller_buffer,
       [Libusb_bulk_transfer (Some 2) 0x82 0 64 500 0 64,
        Libusb_bulk_transfer (Some 2) 0x82 64 64 500 0 64,
        Libusb_bulk_transfer (Some 2) 0x82 128 64 500 0 64])"
    by (simp add: libusb_eval)
  have a3: "read_attempt False (scripted [(0, 64), (0, 64), (0, 64), (0, 10)] [] IoFailed)
       libusb_bulk (Suc (Suc (Suc 0))) 192 64 caller_buffer =
     (Libusb_bulk_transfer (Some 2) 0x82 192 64 500 0 10, caller_buffer)"
    by (simp add: libusb_eval)
  from s3 a3 Read_chunked [of False
      "scripted [(0, 64), (0, 64), (0, 64), (0, 10)] [] IoFailed" libusb_bulk
      caller_buffer 256 0 caller_buffer "[]"
      "Suc (Suc (Suc 0))" 192 64 192 caller_buffer
      "[Libusb_bulk_transfer (Some 2) 0x82 0 64 500 0 64,
        Libusb_bulk_transfer (Some 2) 0x82 64 64 500 0 64,
        Libusb_bulk_transfer (Some 2) 0x82 128 64 500 0 64]"
      "Libusb_bulk_transfer (Some 2) 0x82 192 64 500 0 10" caller_buffer "[]" "[]" IoFailed]
  have r3: "Switch2_BulkUSB_Read False (scripted [(0, 64), (0, 64), (0, 64), (0, 10)] [] IoFailed)
       libusb_bulk caller_buffer 256 =
     Some (202, caller_buffer,
       [Libusb_bulk_transfer (Some 2) 0x82 0 64 500 0 64,
        Libusb_bulk_transfer (Some 2) 0x82 64 64 500 0 64,
        Libusb_bulk_transfer (Some 2) 0x82 128 64 500 0 64,
        Libusb_bulk_transfer (Some 2) 0x82 192 64 500 0 10])"
    by (simp del: read_loop_state.simps)
  have s2: "read_loop_state True (scripted [] [IoCompleted 64, IoPendingSignaled 36] IoFailed)
       winusb_bulk caller_buffer 100 (Suc (Suc 0)) =
     Some (100, 0, 100, caller_buffer,
       [WinUsb_ReadPipe (Some 4) 0x82 0 64 (IoCompleted 64),
        WinUsb_ReadPipe (Some 4) 0x82 64 36 (IoPendingSignaled 36)])"
    by (simp add: winusb_eval)
  have a2: "read_attempt True (scripted [] [IoCompleted 64, IoPendingSignaled 36] IoFailed)
       winusb_bulk (Suc (Suc 0)) 100 0 caller_buffer =
     (WinUsb_ReadPipe (Some 4) 0x82 100 0 IoPendingTimedOut, caller_buffer)"
    by (simp add: winusb_eval)
  have w: "use_winusb winusb_bulk" by (simp add: winusb_bulk_def empty_bulk_def)
  from s2 a2 w Read_chunked [of True
      "scripted [] [IoCompleted 64, IoPendingSignaled 36] IoFailed" winusb_bulk
      caller_buffer 100 0 caller_buffer "[]"
      "Suc (Suc 0)" 100 0 100 caller_buffer
      "[WinUsb_ReadPipe (Some 4) 0x82 0 64 (IoCompleted 64),
        WinUsb_ReadPipe (Some 4) 0x82 64 36 (IoPendingSignaled 36)]"
      "WinUsb_ReadPipe (Some 4) 0x82 100 0 IoPendingTimedOut" caller_buffer "[]" "[]" IoFailed]
  have r2: "Switch2_BulkUSB_Read True (scripted [] [IoCompleted 64, IoPendingSignaled 36] IoFailed)
       winusb_bulk caller_buffer 100 =
     Some (100, caller_buffer,
       [WinUsb_ReadPipe (Some 4) 0x82 0 64 (IoCompleted 64),
        WinUsb_ReadPipe (Some 4) 0x82 64 36 (IoPendingSignaled 36)])"
    by (simp del: read_loop_state.simps)
  have n: "read_loop_state False (scripted [(0, 64), (- 1, 0)] [] IoFailed)
       libusb_bulk caller_buffer 128 (Suc (Suc 0)) = None"
    by (simp add: libusb_eval)
  then have "\<exists>m. read_loop_state False
      (scripted [(0, 64), (- 1, 0)] [] IoFailed) libusb_bulk caller_buffer 128 m = None"
    by (rule exI)
  with Read_chunked [of False "scripted [(0, 64), (- 1, 0)] [] IoFailed" libusb_bulk
      caller_buffer 128 0 caller_buffer "[]" 0 0 0 0 caller_buffer "[]" CreateFileW
      caller_buffer "[]" "[]" IoFailed]
  have e: "\<exists>r. Switch2_BulkUSB_Read False (scripted [(0, 64), (- 1, 0)] [] IoFailed)
       libusb_bulk caller_buffer 128 = Some r"
    by (simp del: read_loop_state.simps)
  from a b s3 a3 r3 s2 r2 n e show ?thesis by (simp only: simp_thms)
qed

text \<open>
  Claim C10. On either backend a Read of size 0 returns 0, makes no call at all, and hands
  the caller's buffer back as it was, whatever the libraries would have answered.
\<close>

theorem Read_zero:
  "Switch2_BulkUSB_Read win32 io bulk data 0 = Some (0, data, [])"
  by (simp add: Switch2_BulkUSB_Read_def Switch2_BulkUSB_WinUSB_Read_def
      libusb_read_loop.simps winusb_read_loop.simps)

text \<open>
  Claim C3, evaluated. A Read of 128 bytes whose first chunk delivers 64 bytes and whose
  second chunk times out: the libusb loop returns the error code \<open>-7\<close>, the WinUSB loop
  returns the 64 bytes accumulated.
\<close>

theorem Read_timeout_after_progress:
  "Switch2_BulkUSB_Read False (scripted [(0, 64), (- 7, 0)] [] IoFailed) libusb_bulk caller_buffer 128 =
     Some (- 7, caller_buffer,
       [Libusb_bulk_transfer (Some 2) 0x82 0 64 500 0 64,
        Libusb_bulk_transfer (Some 2) 0x82 64 64 500 (- 7) 0]) \<and>
   Switch2_BulkUSB_Read True (scripted [] [IoCompleted 64, IoPendingTimedOut] IoFailed) winusb_bulk caller_buffer 128 =
     Some (64, caller_buffer,
       [WinUsb_ReadPipe (Some 4) 0x82 0 64 (IoCompleted 64),
        WinUsb_ReadPipe (Some 4) 0x82 64 64 IoPendingTimedOut,
        WinUsb_AbortPipe (Some 4) 0x82])"
  by (simp add: Switch2_BulkUSB_Read_def Switch2_BulkUSB_WinUSB_Read_def
      libusb_read_loop.simps winusb_read_loop.simps scripted_def
      libusb_bulk_def winusb_bulk_def empty_bulk_def)

lemma full_chunk_step:
  fixes s :: u32
  assumes "0 < s"
  shows "unat (s - (if 64 < s then 64 else s)) < unat s"
    and "(unat (s - (if 64 < s then 64 else s)) + 63) div 64 + 1 \<le> (unat s + 63) div 64"
proof -
  let ?c = "if 64 < s then 64 else s"
  have c: "?c \<le> s" "?c \<noteq> 0" using assms by (auto simp: word_greater_zero_iff)
  have u: "unat (s - ?c) = unat s - unat ?c" using c(1) by (rule unat_sub)
  have pos: "0 < unat ?c" using c(2) by (simp add: unat_gt_0)
  have le: "unat ?c \<le> unat s" using c(1) by (simp add: word_le_nat_alt)
  from u pos le show "unat (s - ?c) < unat s" by arith
  show "(unat (s - ?c) + 63) div 64 + 1 \<le> (unat s + 63) div 64"
  proof (cases "64 < s")
    case True
    then have "64 < unat s" by (simp add: word_less_nat_alt)
    with True u show ?thesis by simp
  next
    case False
    with assms have "0 < unat s" by (simp add: unat_gt_0 word_greater_zero_iff)
    with False show ?thesis by simp
  qed
qed

lemma libusb_read_loop_terminates:
  assumes wb: "well_behaved io"
  shows "\<exists>ret buf' log'. libusb_read_loop io bulk i off size_v total_v buf log = Some (ret, buf', log')
           \<and> length (transfers log') \<le> length (transfers log) + (unat size_v + 63) div 64"
proof (induction "unat size_v" arbitrary: size_v i off total_v buf log rule: less_induct)
  case less
  show ?case
  proof (cases "0 < size_v")
    case False
    then show ?thesis by (subst libusb_read_loop.simps) simp
  next
    case True
    let ?chunk = "if 64 < size_v then 64 else size_v"
    obtain res n b' where bt:
      "bulk_transfer io i (in_endpoint bulk) off ?chunk 500 buf = (res, n, b')"
      by (cases "bulk_transfer io i (in_endpoint bulk) off ?chunk 500 buf") auto
    from wb have "0 \<le> fst (bulk_transfer io i (in_endpoint bulk) off ?chunk 500 buf)"
      "fst (snd (bulk_transfer io i (in_endpoint bulk) off ?chunk 500 buf)) \<le> ?chunk"
      unfolding well_behaved_def by blast+
    with bt have ok: "0 \<le> res" "n \<le> ?chunk" by simp_all
    let ?e = "Libusb_bulk_transfer (device_handle bulk) (in_endpoint bulk) off ?chunk 500 res n"
    have "0 < unat size_v"
      using True by (simp add: unat_gt_0 word_greater_zero_iff)
    then have pos: "1 \<le> (unat size_v + 63) div 64" by arith
    show ?thesis
    proof (cases "n < ?chunk")
      case short: True
      have "libusb_read_loop io bulk i off size_v total_v buf log =
          Some (sint (total_v + n), b', log @ [?e])"
        using True bt ok short by (subst libusb_read_loop.simps) (auto simp: Let_def)
      with pos show ?thesis by (simp add: transfers_def)
    next
      case full: False
      with ok(2) have n: "n = ?chunk" by simp
      have step: "libusb_read_loop io bulk i off size_v total_v buf log =
          libusb_read_loop io bulk (i + 1) (off + unat ?chunk) (size_v - n) (total_v + n) b' (log @ [?e])"
        using True bt ok full by (subst libusb_read_loop.simps) (auto simp: Let_def)
      from full_chunk_step[OF True] n
      have dec: "unat (size_v - n) < unat size_v"
        and cnt: "(unat (size_v - n) + 63) div 64 + 1 \<le> (unat size_v + 63) div 64"
        by simp_all
      from less[OF dec, of "i + 1" "off + unat ?chunk" "total_v + n" b' "log @ [?e]"]
      obtain ret buf' log' where
        r: "libusb_read_loop io bulk (i + 1) (off + unat ?chunk) (size_v - n) (total_v + n) b' (log @ [?e])
            = Some (ret, buf', log')"
        and l: "length (transfers log') \<le> length (transfers (log @ [?e])) + (unat (size_v - n) + 63) div 64"
        by blast
      from l cnt have "length (transfers log') \<le> length (transfers log) + (unat size_v + 63) div 64"
        by (simp add: transfers_def)
      with r step show ?thesis by simp
    qed
  qed
qed

lemma winusb_read_loop_terminates:
  assumes wb: "well_behaved io"
  shows "\<exists>ret buf' log'. winusb_read_loop io bulk i off size_v total_v buf log = Some (ret, buf', log')
           \<and> length (transfers log') \<le> length (transfers log) + (unat size_v + 63) div 64"
proof (induction "unat size_v" arbitrary: size_v i off total_v buf log rule: less_induct)
  case less
  show ?case
  proof (cases "0 < size_v")
    case False
    then show ?thesis by (subst winusb_read_loop.simps) simp
  next
    case True
    let ?chunk = "if 64 < size_v then 64 else size_v"
    obtain r b' where rp:
      "ReadPipe io i (winusb_in_pipe bulk) off ?chunk buf = (r, b')"
      by (cases "ReadPipe io i (winusb_in_pipe bulk) off ?chunk buf") auto
    from wb obtain n where "n \<le> ?chunk"
      "fst (ReadPipe io i (winusb_in_pipe bulk) off ?chunk buf) = IoCompleted n \<or>
       fst (ReadPipe io i (winusb_in_pipe bulk) off ?chunk buf) = IoPendingSignaled n"
      unfolding well_behaved_def by blast
    with rp have ok: "n \<le> ?chunk" "r = IoCompleted n \<or> r = IoPendingSignaled n" by simp_all
    let ?e = "WinUsb_ReadPipe (winusb_handle bulk) (winusb_in_pipe bulk) off ?chunk r"
    have "0 < unat size_v"
      using True by (simp add: unat_gt_0 word_greater_zero_iff)
    then have pos: "1 \<le> (unat size_v + 63) div 64" by arith
    show ?thesis
    proof (cases "n < ?chunk")
      case short: True
      have "winusb_read_loop io bulk i off size_v total_v buf log =
          Some (sint (total_v + n), b', log @ [?e])"
        using True rp ok short by (subst winusb_read_loop.simps) (auto simp: Let_def)
      with pos show ?thesis by (simp add: transfers_def)
    next
      case full: False
      with ok(1) have n: "n = ?chunk" by simp
      have step: "winusb_read_loop io bulk i off size_v total_v buf log =
          winusb_read_loop io bulk (i + 1) (off + unat ?chunk) (size_v - n) (total_v + n) b' (log @ [?e])"
        using True rp ok full by (subst winusb_read_loop.simps) (auto simp: Let_def)
      from full_chunk_step[OF True] n
      have dec: "unat (size_v - n) < unat size_v"
        and cnt: "(unat (size_v - n) + 63) div 64 + 1 \<le> (unat size_v + 63) div 64"
        by simp_all
      from less[OF dec, of "i + 1" "off + unat ?chunk" "total_v + n" b' "log @ [?e]"]
      obtain ret buf' log' where
        r: "winusb_read_loop io bulk (i + 1) (off + unat ?chunk) (size_v - n) (total_v + n) b' (log @ [?e])
            = Some (ret, buf', log')"
        and l: "length (transfers log') \<le> length (transfers (log @ [?e])) + (unat (size_v - n) + 63) div 64"
        by blast
      from l cnt have "length (transfers log') \<le> length (transfers log) + (unat size_v + 63) div 64"
        by (simp add: transfers_def)
      with r step show ?thesis by simp
    qed
  qed
qed

text \<open>
  Claim C9. When every transfer succeeds and delivers at most what it was asked for, both
  read loops return, for every requested size, after at most one transfer per 64 bytes
  (rounded up): a transfer that is not short takes a full chunk of at least one byte off
  the remaining size.
\<close>

theorem Read_terminates:
  assumes "well_behaved io"
  shows "\<exists>ret data' log. Switch2_BulkUSB_Read win32 io bulk data size_v = Some (ret, data', log) \<and>
           length (transfers log) \<le> (unat size_v + 63) div 64"
proof (cases "win32 \<and> use_winusb bulk")
  case True
  with winusb_read_loop_terminates[OF assms, of bulk 0 0 size_v 0 data "[]"] show ?thesis
    by (simp add: Switch2_BulkUSB_Read_def Switch2_BulkUSB_WinUSB_Read_def transfers_def)
next
  case False
  with libusb_read_loop_terminates[OF assms, of bulk 0 0 size_v 0 data "[]"] show ?thesis
    by (auto simp: Switch2_BulkUSB_Read_def transfers_def)
qed

theorem Read_terminates_witness:
  "well_behaved (obedient :: (u8 list) usb_io) \<and>
   (\<exists>ret data' log.
      Switch2_BulkUSB_Read True obedient winusb_bulk caller_buffer 200 = Some (ret, data', log) \<and>
      length (transfers log) \<le> 4)"
  using Read_terminates [of "obedient :: (u8 list) usb_io" True winusb_bulk caller_buffer 200]
  by (simp add: well_behaved_def obedient_def)


lemma sint_small:
  fixes n :: u32
  assumes "unat n < 2 ^ 31"
  shows "sint n = int (unat n)"
proof -
  have u: "uint n = int (unat n)" by simp
  from assms have "int (unat n) < 2 ^ 31"
    by (metis of_nat_less_iff of_nat_numeral of_nat_power)
  moreover have "- (2 ^ 31) \<le> int (unat n)"
    by (rule order_trans [of _ 0]) simp_all
  ultimately have "signed_take_bit 31 (int (unat n)) = int (unat n)"
    by (rule signed_take_bit_int_eq_self [rotated])
  then show ?thesis by (simp add: sint_uint)
qed

text \<open>
  Claim C4, as stated, fails for a count that does not fit the \<^verbatim>\<open>int\<close> the function
  returns. A Write of 4294967289 bytes that completes with all 4294967289 bytes
  transferred returns \<open>-7\<close>, the value a timed-out Write returns, on WinUSB,
  which ends with \<^verbatim>\<open>return (int)transferred\<close>, and on libusb.
\<close>

theorem Write_large_count_returns_timeout_code:
  "Switch2_BulkUSB_Write True (obedient :: (u8 list) usb_io) winusb_bulk caller_buffer
       4294967289 100 =
     (- 7, [WinUsb_WritePipe (Some 4) 0x02 4294967289 100 (IoCompleted 4294967289)]) \<and>
   Switch2_BulkUSB_Write False (obedient :: (u8 list) usb_io) libusb_bulk caller_buffer
       4294967289 100 =
     (- 7, [Libusb_bulk_transfer (Some 2) 0x02 0 4294967289 100 0 4294967289])"
  by (simp add: Switch2_BulkUSB_Write_def Switch2_BulkUSB_WinUSB_Write_def obedient_def
      winusb_bulk_def libusb_bulk_def empty_bulk_def)

text \<open>
  Claim C4, as amended. A Write of \<open>n\<close> bytes that completes with all \<open>n\<close> bytes
  transferred returns \<open>n\<close> converted to the \<^verbatim>\<open>int\<close> the function returns: the value
  \<open>n\<close> itself whenever \<open>n\<close> is below \<open>2^31\<close>. A Write that times out returns
  \<open>-7\<close>: on libusb this is the library's \<^verbatim>\<open>LIBUSB_ERROR_TIMEOUT\<close>, handed on like every
  negative code; on WinUSB the pipe is aborted after the write call and before the return.
  The other WinUSB failures return \<open>-1\<close>.
\<close>

theorem Write_result:
  "(\<not> (win32 \<and> use_winusb bulk) \<and>
    bulk_transfer io 0 (out_endpoint bulk) 0 n timeout_ms data = (res, n, data') \<and> 0 \<le> res \<longrightarrow>
      fst (Switch2_BulkUSB_Write win32 io bulk data n timeout_ms) = sint n \<and>
      (unat n < 2 ^ 31 \<longrightarrow>
         fst (Switch2_BulkUSB_Write win32 io bulk data n timeout_ms) = int (unat n))) \<and>
   (\<not> (win32 \<and> use_winusb bulk) \<and>
    fst (bulk_transfer io 0 (out_endpoint bulk) 0 n timeout_ms data) = LIBUSB_ERROR_TIMEOUT \<longrightarrow>
      fst (Switch2_BulkUSB_Write win32 io bulk data n timeout_ms) = - 7) \<and>
   (\<not> (win32 \<and> use_winusb bulk) \<and>
    fst (bulk_transfer io 0 (out_endpoint bulk) 0 n timeout_ms data) < 0 \<longrightarrow>
      fst (Switch2_BulkUSB_Write win32 io bulk data n timeout_ms) =
        fst (bulk_transfer io 0 (out_endpoint bulk) 0 n timeout_ms data)) \<and>
   (win32 \<and> use_winusb bulk \<and>
    (WritePipe io (winusb_out_pipe bulk) n timeout_ms = IoCompleted n \<or>
     WritePipe io (winusb_out_pipe bulk) n timeout_ms = IoPendingSignaled n) \<longrightarrow>
      fst (Switch2_BulkUSB_Write win32 io bulk data n timeout_ms) = sint n \<and>
      (unat n < 2 ^ 31 \<longrightarrow>
         fst (Switch2_BulkUSB_Write win32 io bulk data n timeout_ms) = int (unat n))) \<and>
   (win32 \<and> use_winusb bulk \<and>
    WritePipe io (winusb_out_pipe bulk) n timeout_ms = IoPendingTimedOut \<longrightarrow>
      Switch2_BulkUSB_Write win32 io bulk data n timeout_ms =
        (- 7, [WinUsb_WritePipe (winusb_handle bulk) (winusb_out_pipe bulk) n timeout_ms
                 IoPendingTimedOut,
               WinUsb_AbortPipe (winusb_handle bulk) (winusb_out_pipe bulk)])) \<and>
   (win32 \<and> use_winusb bulk \<and>
    (WritePipe io (winusb_out_pipe bulk) n timeout_ms = IoFailed \<or>
     WritePipe io (winusb_out_pipe bulk) n timeout_ms = EventCreateFailed) \<longrightarrow>
      fst (Switch2_BulkUSB_Write win32 io bulk data n timeout_ms) = - 1)"
  by (auto simp: Switch2_BulkUSB_Write_def Switch2_BulkUSB_WinUSB_Write_def Let_def
      LIBUSB_ERROR_TIMEOUT_def sint_small split: prod.splits)

theorem Write_result_witness:
  "fst (Switch2_BulkUSB_Write False (obedient :: (u8 list) usb_io) libusb_bulk caller_buffer 48 100) = 48 \<and>
   fst (Switch2_BulkUSB_Write False (scripted [LIBUSB_timeout] [] IoFailed) libusb_bulk
          caller_buffer 48 100) = - 7 \<and>
   fst (Switch2_BulkUSB_Write True (obedient :: (u8 list) usb_io) winusb_bulk caller_buffer 48 100) = 48 \<and>
   Switch2_BulkUSB_Write True (scripted [] [] IoPendingTimedOut) winusb_bulk caller_buffer 48 100 =
     (- 7, [WinUsb_WritePipe (Some 4) 0x02 48 100 IoPendingTimedOut, WinUsb_AbortPipe (Some 4) 0x02]) \<and>
   fst (Switch2_BulkUSB_Write True (scripted [] [] IoFailed) winusb_bulk caller_buffer 48 100) = - 1"
  using Write_result [of False libusb_bulk "obedient :: (u8 list) usb_io" 48 100 caller_buffer 0 caller_buffer]
    Write_result [of False libusb_bulk "scripted [LIBUSB_timeout] [] IoFailed" 48 100 caller_buffer]
    Write_result [of True winusb_bulk "obedient :: (u8 list) usb_io" 48 100 caller_buffer]
    Write_result [of True winusb_bulk "scripted [] [] IoPendingTimedOut" 48 100 caller_buffer]
    Write_result [of True winusb_bulk "scripted [] [] IoFailed" 48 100 caller_buffer]
  by (simp add: obedient_def scripted_def libusb_bulk_def winusb_bulk_def empty_bulk_def
      LIBUSB_timeout_def LIBUSB_ERROR_TIMEOUT_def)

section \<open>Close and Open: proofs\<close>

lemma close_native_fst:
  "fst (close_native win32 s) =
     (fst s)\<lparr>winusb_file_handle :=
               (if win32 \<and> use_winusb (fst s) \<and>
                   winusb_file_handle (fst s) \<noteq> INVALID_HANDLE_VALUE
                then NULL_HANDLE else winusb_file_handle (fst s)),
             winusb_handle := (if win32 \<and> use_winusb (fst s) then None else winusb_handle (fst s)),
             use_winusb := (use_winusb (fst s) \<and> \<not> win32)\<rparr>"
  by (cases s)
    (auto simp: close_native_def Switch2_BulkUSB_CloseWinUSB_def close_winusb_handle_def
      close_winusb_file_def)

lemma close_native_snd:
  "snd (close_native win32 s) =
     snd s @
     (if win32 \<and> use_winusb (fst s) \<and> winusb_handle (fst s) \<noteq> None
      then [WinUsb_Free (winusb_handle (fst s))] else []) @
     (if win32 \<and> use_winusb (fst s) \<and> winusb_file_handle (fst s) \<noteq> NULL_HANDLE \<and>
         winusb_file_handle (fst s) \<noteq> INVALID_HANDLE_VALUE
      then [CloseHandle (winusb_file_handle (fst s))] else [])"
  by (cases s)
    (auto simp: close_native_def Switch2_BulkUSB_CloseWinUSB_def close_winusb_handle_def
      close_winusb_file_def)

lemma close_interface_fst:
  "fst (close_interface s) =
     (fst s)\<lparr>interface_claimed := (interface_claimed (fst s) \<and> libusb (fst s) = None)\<rparr>"
  by (cases s) (auto simp: close_interface_def)

lemma close_interface_snd:
  "snd (close_interface s) =
     snd s @
     (if interface_claimed (fst s) \<and> libusb (fst s) \<noteq> None
      then [Libusb_release_interface (device_handle (fst s)) (interface_number (fst s))]
      else [])"
  by (cases s) (auto simp: close_interface_def)

lemma close_device_fst:
  "fst (close_device s) =
     (fst s)\<lparr>device_handle :=
               (if owns_device_handle (fst s) \<and> libusb (fst s) \<noteq> None then None
                else device_handle (fst s))\<rparr>"
  by (cases s) (auto simp: close_device_def)

lemma close_device_snd:
  "snd (close_device s) =
     snd s @
     (if owns_device_handle (fst s) \<and> device_handle (fst s) \<noteq> None \<and> libusb (fst s) \<noteq> None
      then [Libusb_close (device_handle (fst s))] else [])"
  by (cases s) (auto simp: close_device_def)

lemma close_context_fst:
  "fst (close_context s) =
     (fst s)\<lparr>libusb_ctx := (if libusb (fst s) \<noteq> None then None else libusb_ctx (fst s))\<rparr>"
  by (cases s) (auto simp: close_context_def)

lemma close_context_snd:
  "snd (close_context s) =
     snd s @
     (if libusb_ctx (fst s) \<noteq> None \<and> libusb (fst s) \<noteq> None
      then [Libusb_exit (libusb_ctx (fst s))] else [])"
  by (cases s) (auto simp: close_context_def)

lemma close_runtime_fst: "fst (close_runtime s) = (fst s)\<lparr>libusb := None\<rparr>"
  by (cases s) (auto simp: close_runtime_def)

lemma close_runtime_snd:
  "snd (close_runtime s) = snd s @ (if libusb (fst s) \<noteq> None then [SDL_QuitLibUSB] else [])"
  by (cases s) (auto simp: close_runtime_def)

lemmas close_steps =
  close_native_fst close_native_snd close_interface_fst close_interface_snd
  close_device_fst close_device_snd close_context_fst close_context_snd
  close_runtime_fst close_runtime_snd

lemma Close_calls:
  "snd (Switch2_BulkUSB_Close win32 bulk) =
     (if win32 \<and> use_winusb bulk \<and> winusb_handle bulk \<noteq> None
      then [WinUsb_Free (winusb_handle bulk)] else []) @
     (if win32 \<and> use_winusb bulk \<and> winusb_file_handle bulk \<noteq> NULL_HANDLE \<and>
         winusb_file_handle bulk \<noteq> INVALID_HANDLE_VALUE
      then [CloseHandle (winusb_file_handle bulk)] else []) @
     (if interface_claimed bulk \<and> libusb bulk \<noteq> None
      then [Libusb_release_interface (device_handle bulk) (interface_number bulk)] else []) @
     (if owns_device_handle bulk \<and> device_handle bulk \<noteq> None \<and> libusb bulk \<noteq> None
      then [Libusb_close (device_handle bulk)] else []) @
     (if libusb_ctx bulk \<noteq> None \<and> libusb bulk \<noteq> None
      then [Libusb_exit (libusb_ctx bulk)] else []) @
     (if libusb bulk \<noteq> None then [SDL_QuitLibUSB] else [])"
  unfolding Switch2_BulkUSB_Close_def
  by (simp add: close_steps split del: if_split cong: if_cong)

lemma Close_state:
  "fst (Switch2_BulkUSB_Close win32 bulk) =
     bulk\<lparr>libusb := None,
          device_handle := (if owns_device_handle bulk \<and> libusb bulk \<noteq> None then None
                            else device_handle bulk),
          libusb_ctx := (if libusb bulk \<noteq> None then None else libusb_ctx bulk),
          interface_claimed := (interface_claimed bulk \<and> libusb bulk = None),
          winusb_file_handle :=
            (if win32 \<and> use_winusb bulk \<and> winusb_file_handle bulk \<noteq> INVALID_HANDLE_VALUE
             then NULL_HANDLE else winusb_file_handle bulk),
          winusb_handle := (if win32 \<and> use_winusb bulk then None else winusb_handle bulk),
          use_winusb := (use_winusb bulk \<and> \<not> win32)\<rparr>"
  unfolding Switch2_BulkUSB_Close_def
  by (simp add: close_steps split del: if_split cong: if_cong)

lemma try_interfaces_step:
  "(\<exists>sfx. (\<forall>e \<in> set sfx. quiet e) \<and>
       try_interfaces (c # cs) bulk log = try_interfaces cs bulk (log @ sfx)) \<or>
   (\<exists>sfx b'. (\<forall>e \<in> set sfx. quiet e) \<and> use_winusb b' \<and> libusb b' = libusb bulk \<and>
       interface_claimed b' = interface_claimed bulk \<and>
       try_interfaces (c # cs) bulk log = (True, b', log @ sfx))"
proof -
  let ?skip = "\<not> detail_allocated c \<or> \<not> detail_read c \<or>
      (\<not> wcsstr_found (DevicePath c) ''vid_057e'' \<and> \<not> wcsstr_found (DevicePath c) ''VID_057E'')"
  let ?fh = "created_file c"
  consider (skip) ?skip
    | (nofile) "\<not> ?skip" "?fh = INVALID_HANDLE_VALUE"
    | (nosession) "\<not> ?skip" "?fh \<noteq> INVALID_HANDLE_VALUE" "winusb_session c = None"
    | (nosettings) wh where "\<not> ?skip" "?fh \<noteq> INVALID_HANDLE_VALUE" "winusb_session c = Some wh"
        "queried_pipes c = None"
    | (nopipes) wh qs where "\<not> ?skip" "?fh \<noteq> INVALID_HANDLE_VALUE" "winusb_session c = Some wh"
        "queried_pipes c = Some qs"
        "fst (query_pipes qs (0, 0)) = 0 \<or> snd (query_pipes qs (0, 0)) = 0"
    | (found) wh qs where "\<not> ?skip" "?fh \<noteq> INVALID_HANDLE_VALUE" "winusb_session c = Some wh"
        "queried_pipes c = Some qs"
        "fst (query_pipes qs (0, 0)) \<noteq> 0" "snd (query_pipes qs (0, 0)) \<noteq> 0"
    by (cases "winusb_session c"; cases "queried_pipes c") auto
  then show ?thesis
  proof cases
    case skip
    then have "try_interfaces (c # cs) bulk log = try_interfaces cs bulk (log @ [])" by auto
    then show ?thesis by (intro disjI1 exI[of _ "[]"]) simp
  next
    case nofile
    then have "try_interfaces (c # cs) bulk log = try_interfaces cs bulk (log @ [CreateFileW])"
      by auto
    then show ?thesis by (intro disjI1 exI[of _ "[CreateFileW]"]) (simp add: quiet_def)
  next
    case nosession
    then have "try_interfaces (c # cs) bulk log =
        try_interfaces cs bulk (log @ [CreateFileW, WinUsb_Initialize ?fh, CloseHandle ?fh])"
      by auto
    then show ?thesis
      by (intro disjI1 exI[of _ "[CreateFileW, WinUsb_Initialize ?fh, CloseHandle ?fh]"])
        (simp add: quiet_def)
  next
    case nosettings
    then have "try_interfaces (c # cs) bulk log =
        try_interfaces cs bulk
          (log @ [CreateFileW, WinUsb_Initialize ?fh, WinUsb_Free (Some wh), CloseHandle ?fh])"
      by auto
    then show ?thesis
      by (intro disjI1
          exI[of _ "[CreateFileW, WinUsb_Initialize ?fh, WinUsb_Free (Some wh), CloseHandle ?fh]"])
        (simp add: quiet_def)
  next
    case nopipes
    then have "try_interfaces (c # cs) bulk log =
        try_interfaces cs bulk
          (log @ [CreateFileW, WinUsb_Initialize ?fh, WinUsb_Free (Some wh), CloseHandle ?fh])"
      by (auto simp: case_prod_beta)
    then show ?thesis
      by (intro disjI1
          exI[of _ "[CreateFileW, WinUsb_Initialize ?fh, WinUsb_Free (Some wh), CloseHandle ?fh]"])
        (simp add: quiet_def)
  next
    case found
    let ?o = "fst (query_pipes qs (0, 0))" and ?i = "snd (query_pipes qs (0, 0))"
    let ?b = "bulk\<lparr>winusb_file_handle := ?fh, winusb_handle := Some wh,
        winusb_out_pipe := ?o, winusb_in_pipe := ?i, use_winusb := True\<rparr>"
    let ?sfx = "[CreateFileW, WinUsb_Initialize ?fh, WinUsb_SetPipePolicy (Some wh) ?o 1000,
        WinUsb_SetPipePolicy (Some wh) ?i 1000, SetupDiDestroyDeviceInfoList]"
    from found have "try_interfaces (c # cs) bulk log = (True, ?b, log @ ?sfx)"
      by (auto simp: case_prod_beta)
    then show ?thesis
      by (intro disjI2 exI[of _ ?sfx] exI[of _ ?b]) (simp add: quiet_def)
  qed
qed

lemma try_interfaces_effect:
  assumes "try_interfaces cs bulk log = (ok, b', log')"
  shows "(\<not> ok \<longrightarrow> b' = bulk) \<and>
         (ok \<longrightarrow> use_winusb b' \<and> libusb b' = libusb bulk \<and>
                 interface_claimed b' = interface_claimed bulk) \<and>
         ((\<forall>e \<in> set log. quiet e) \<longrightarrow> (\<forall>e \<in> set log'. quiet e))"
  using assms
proof (induction cs arbitrary: log)
  case Nil
  then show ?case by (auto simp: quiet_def)
next
  case (Cons c cs)
  from try_interfaces_step[of c cs bulk log] show ?case
  proof (elim disjE exE conjE)
    fix sfx
    assume q: "\<forall>e \<in> set sfx. quiet e"
      and "try_interfaces (c # cs) bulk log = try_interfaces cs bulk (log @ sfx)"
    with Cons.prems have "try_interfaces cs bulk (log @ sfx) = (ok, b', log')" by simp
    from Cons.IH[OF this] q show ?thesis by auto
  next
    fix sfx b''
    assume "\<forall>e \<in> set sfx. quiet e" "use_winusb b''" "libusb b'' = libusb bulk"
      "interface_claimed b'' = interface_claimed bulk"
      "try_interfaces (c # cs) bulk log = (True, b'', log @ sfx)"
    with Cons.prems show ?thesis by auto
  qed
qed

lemma OpenWinUSB_effect:
  assumes "Switch2_BulkUSB_OpenWinUSB env bulk = (ok, b', log')"
  shows "(\<not> ok \<longrightarrow> b' = bulk) \<and>
         (ok \<longrightarrow> use_winusb b' \<and> libusb b' = libusb bulk \<and>
                 interface_claimed b' = interface_claimed bulk) \<and>
         (\<forall>e \<in> set log'. quiet e)"
proof (cases "class_devices env")
  case None
  with assms show ?thesis by (simp add: Switch2_BulkUSB_OpenWinUSB_def)
next
  case (Some cs)
  with assms have "try_interfaces cs bulk [] = (ok, b', log')"
    by (simp add: Switch2_BulkUSB_OpenWinUSB_def)
  from try_interfaces_effect[OF this] show ?thesis by simp
qed

lemma open_matching_effect:
  assumes "open_matching device usb_ctx ds i bulk log = (b', log')"
  shows "(device_handle b' = None \<longrightarrow> b' = bulk) \<and>
         (b' = bulk \<or> (\<exists>h. b' = bulk\<lparr>device_handle := Some h, owns_device_handle := True,
                                       libusb_ctx := usb_ctx\<rparr>)) \<and>
         ((\<forall>e \<in> set log. quiet e) \<longrightarrow> (\<forall>e \<in> set log'. quiet e))"
  using assms
proof (induction ds arbitrary: i log)
  case Nil
  then show ?case by auto
next
  case (Cons d ds)
  show ?case
  proof (cases "device_descriptor d")
    case None
    with Cons.prems have "open_matching device usb_ctx ds (i + 1) bulk log = (b', log')" by simp
    from Cons.IH[OF this] show ?thesis .
  next
    case (Some desc)
    show ?thesis
    proof (cases "idVendor desc = vendor_id device \<and> idProduct desc = product_id device")
      case False
      with Some Cons.prems have "open_matching device usb_ctx ds (i + 1) bulk log = (b', log')"
        by auto
      from Cons.IH[OF this] show ?thesis .
    next
      case True
      show ?thesis
      proof (cases "opened d")
        case None
        with True Some Cons.prems
        have "open_matching device usb_ctx ds (i + 1) bulk (log @ [Libusb_open i]) = (b', log')"
          by simp
        from Cons.IH[OF this] show ?thesis by (auto simp: quiet_def)
      next
        case (Some h)
        with True \<open>device_descriptor d = Some desc\<close> Cons.prems
        have "b' = bulk\<lparr>device_handle := Some h, owns_device_handle := True,
                        libusb_ctx := usb_ctx\<rparr>" "log' = log @ [Libusb_open i]"
          by simp_all
        then show ?thesis by (auto simp: quiet_def)
      qed
    qed
  qed
qed

lemma own_connection_effect:
  assumes "own_connection env device bulk log = (b', log')"
  shows "(device_handle b' = None \<longrightarrow> b' = bulk) \<and>
         (b' = bulk \<or> (\<exists>h ctx. b' = bulk\<lparr>device_handle := Some h, owns_device_handle := True,
                                           libusb_ctx := Some ctx\<rparr>)) \<and>
         ((\<forall>e \<in> set log. quiet e) \<longrightarrow> (\<forall>e \<in> set log'. quiet e))"
proof (cases "libusb_init env")
  case None
  with assms have "b' = bulk" "log' = log @ [Libusb_init]"
    by (simp_all add: own_connection_def)
  then show ?thesis by (simp add: quiet_def)
next
  case (Some ctx)
  show ?thesis
  proof (cases "device_list env")
    case None
    have "own_connection env device bulk log =
        (bulk, (log @ [Libusb_init, Libusb_get_device_list]) @
               (if device_handle bulk = None then [Libusb_exit (Some ctx)] else []))"
      by (simp add: own_connection_def Some None)
    with assms have "(b', log') = (bulk, (log @ [Libusb_init, Libusb_get_device_list]) @
               (if device_handle bulk = None then [Libusb_exit (Some ctx)] else []))"
      by (rule trans [OF sym])
    then have "b' = bulk"
      "log' = (log @ [Libusb_init, Libusb_get_device_list]) @
               (if device_handle bulk = None then [Libusb_exit (Some ctx)] else [])"
      by blast+
    then show ?thesis by (auto simp: quiet_def)
  next
    case ds: (Some ds)
    obtain b1 l1 where om: "open_matching device (Some ctx) ds 0 bulk
        (log @ [Libusb_init, Libusb_get_device_list]) = (b1, l1)"
      by (cases "open_matching device (Some ctx) ds 0 bulk
        (log @ [Libusb_init, Libusb_get_device_list])") auto
    from open_matching_effect[OF om]
    have e1: "device_handle b1 = None \<longrightarrow> b1 = bulk"
      and e2: "b1 = bulk \<or> (\<exists>h. b1 = bulk\<lparr>device_handle := Some h, owns_device_handle := True,
                                       libusb_ctx := Some ctx\<rparr>)"
      and e3: "(\<forall>e \<in> set (log @ [Libusb_init, Libusb_get_device_list]). quiet e) \<longrightarrow>
                 (\<forall>e \<in> set l1. quiet e)"
      by blast+
    have "own_connection env device bulk log =
        (b1, (l1 @ [Libusb_free_device_list]) @
             (if device_handle b1 = None then [Libusb_exit (Some ctx)] else []))"
      by (simp add: own_connection_def Some ds om)
    with assms have "(b', log') = (b1, (l1 @ [Libusb_free_device_list]) @
             (if device_handle b1 = None then [Libusb_exit (Some ctx)] else []))"
      by (rule trans [OF sym])
    then have r: "b' = b1"
      "log' = (l1 @ [Libusb_free_device_list]) @
             (if device_handle b1 = None then [Libusb_exit (Some ctx)] else [])"
      by blast+
    have "(\<forall>e \<in> set log. quiet e) \<longrightarrow> (\<forall>e \<in> set l1. quiet e)"
      using e3 by (simp add: quiet_def)
    then have "(\<forall>e \<in> set log. quiet e) \<longrightarrow> (\<forall>e \<in> set log'. quiet e)"
      unfolding r(2) by (auto simp: quiet_def)
    moreover from e1 r(1) have "device_handle b' = None \<longrightarrow> b' = bulk" by simp
    moreover from e2 r(1) have "b' = bulk \<or>
        (\<exists>h ctx. b' = bulk\<lparr>device_handle := Some h, owns_device_handle := True,
                          libusb_ctx := Some ctx\<rparr>)"
      by blast
    ultimately show ?thesis by simp
  qed
qed

lemma open_libusb_cases:
  assumes "open_libusb env device bulk log = (r, b', log')"
  obtains
    (init) "init_libusb env = None" "r = Inl Couldnt_initialize_libusb" "b' = bulk"
      "(\<forall>e \<in> set log. quiet e) \<longrightarrow> (\<forall>e \<in> set log'. quiet e)"
  | (handle) p where "init_libusb env = Some p" "r = Inl Couldnt_get_libusb_device_handle"
      "b' = bulk\<lparr>libusb := None, device_handle := None\<rparr>"
      "(\<forall>e \<in> set log. quiet e) \<longrightarrow> (\<forall>e \<in> set log'. quiet e)"
  | (endpoints) p b2 h n ep_out ep_in where "init_libusb env = Some p"
      "libusb b2 = Some p" "device_handle b2 = Some h"
      "interface_claimed b2 = interface_claimed bulk" "use_winusb b2 = use_winusb bulk"
      "libusb_handle_property device = None \<longrightarrow> owns_device_handle b2 \<and> libusb_ctx b2 \<noteq> None"
      "Switch2_BulkUSB_FindEndpoints (config_descriptor env h)
         (interface_number b2, out_endpoint b2, in_endpoint b2) = (False, n, ep_out, ep_in)"
      "r = Inl Couldnt_find_bulk_endpoints"
      "b' = b2\<lparr>interface_number := n, out_endpoint := ep_out, in_endpoint := ep_in\<rparr>"
      "(\<forall>e \<in> set log. quiet e) \<longrightarrow> (\<forall>e \<in> set log'. quiet e)"
  | (claim) p b2 h n ep_out ep_in where "init_libusb env = Some p"
      "libusb b2 = Some p" "device_handle b2 = Some h"
      "interface_claimed b2 = interface_claimed bulk" "use_winusb b2 = use_winusb bulk"
      "libusb_handle_property device = None \<longrightarrow> owns_device_handle b2 \<and> libusb_ctx b2 \<noteq> None"
      "Switch2_BulkUSB_FindEndpoints (config_descriptor env h)
         (interface_number b2, out_endpoint b2, in_endpoint b2) = (True, n, ep_out, ep_in)"
      "claim_interface env h n < 0"
      "r = Inl (Couldnt_claim_interface n (claim_interface env h n))"
      "b' = b2\<lparr>interface_number := n, out_endpoint := ep_out, in_endpoint := ep_in\<rparr>"
  | (opened) p b2 h n ep_out ep_in where "init_libusb env = Some p"
      "libusb b2 = Some p" "device_handle b2 = Some h"
      "use_winusb b2 = use_winusb bulk"
      "Switch2_BulkUSB_FindEndpoints (config_descriptor env h)
         (interface_number b2, out_endpoint b2, in_endpoint b2) = (True, n, ep_out, ep_in)"
      "0 \<le> claim_interface env h n"
      "r = Inr ()"
      "b' = b2\<lparr>interface_number := n, out_endpoint := ep_out, in_endpoint := ep_in,
                 interface_claimed := True\<rparr>"
proof (cases "init_libusb env")
  case None
  with assms have "r = Inl Couldnt_initialize_libusb" "b' = bulk" "log' = log @ [SDL_InitLibUSB]"
    by (simp_all add: open_libusb_def)
  then have "(\<forall>e \<in> set log. quiet e) \<longrightarrow> (\<forall>e \<in> set log'. quiet e)"
    by (auto simp: quiet_def)
  with None \<open>r = Inl Couldnt_initialize_libusb\<close> \<open>b' = bulk\<close> show ?thesis by (rule init)
next
  case (Some p)
  let ?b1 = "bulk\<lparr>libusb := Some p, device_handle := libusb_handle_property device\<rparr>"
  let ?l1 = "log @ [SDL_InitLibUSB]"
  obtain b2 l2 where c: "(if device_handle ?b1 = None then own_connection env device ?b1 ?l1
      else (?b1, ?l1)) = (b2, l2)"
    by (cases "if device_handle ?b1 = None then own_connection env device ?b1 ?l1
      else (?b1, ?l1)") auto
  have b2: "(device_handle b2 = None \<longrightarrow> b2 = ?b1) \<and>
      (b2 = ?b1 \<or> (\<exists>h ctx. b2 = ?b1\<lparr>device_handle := Some h, owns_device_handle := True,
          libusb_ctx := Some ctx\<rparr>)) \<and>
      ((\<forall>e \<in> set ?l1. quiet e) \<longrightarrow> (\<forall>e \<in> set l2. quiet e))"
  proof (cases "device_handle ?b1 = None")
    case True
    with c have "own_connection env device ?b1 ?l1 = (b2, l2)" by simp
    from own_connection_effect[OF this] show ?thesis .
  next
    case False
    with c have "(?b1, ?l1) = (b2, l2)" by (simp only: if_False)
    then have "b2 = ?b1" "l2 = ?l1" by blast+
    then show ?thesis by simp
  qed
  then have b2a: "device_handle b2 = None \<longrightarrow> b2 = ?b1"
    and b2b: "b2 = ?b1 \<or> (\<exists>h ctx. b2 = ?b1\<lparr>device_handle := Some h, owns_device_handle := True,
          libusb_ctx := Some ctx\<rparr>)"
    and b2c: "(\<forall>e \<in> set ?l1. quiet e) \<longrightarrow> (\<forall>e \<in> set l2. quiet e)"
    by blast+
  from b2c have q: "(\<forall>e \<in> set log. quiet e) \<longrightarrow> (\<forall>e \<in> set l2. quiet e)"
    by (simp add: quiet_def)
  from b2b have keep: "libusb b2 = Some p" "interface_claimed b2 = interface_claimed bulk"
    "use_winusb b2 = use_winusb bulk"
    by (elim disjE exE; simp)+
  from b2b have own: "libusb_handle_property device = None \<longrightarrow>
      device_handle b2 \<noteq> None \<longrightarrow> owns_device_handle b2 \<and> libusb_ctx b2 \<noteq> None"
    by (elim disjE exE; simp)
  from assms Some c have body: "(case device_handle b2 of
      None \<Rightarrow> (Inl Couldnt_get_libusb_device_handle, b2\<lparr>libusb := None\<rparr>, l2 @ [SDL_QuitLibUSB])
    | Some h \<Rightarrow>
        (case Switch2_BulkUSB_FindEndpoints (config_descriptor env h)
                (interface_number b2, out_endpoint b2, in_endpoint b2) of
           (ok, n, ep_out, ep_in) \<Rightarrow>
             (let bulk3 = b2\<lparr>interface_number := n, out_endpoint := ep_out, in_endpoint := ep_in\<rparr>
              in if \<not> ok then (Inl Couldnt_find_bulk_endpoints, bulk3, l2)
                 else
                   (let res = claim_interface env h n;
                        log3 = l2 @ [Libusb_set_auto_detach_kernel_driver (Some h),
                                     Libusb_claim_interface (Some h) n]
                    in if res < 0
                       then (Inl (Couldnt_claim_interface n res), bulk3, log3)
                       else (Inr (), bulk3\<lparr>interface_claimed := True\<rparr>, log3))))) = (r, b', log')"
    unfolding open_libusb_def by (simp only: option.case prod.case Let_def)
  show ?thesis
  proof (cases "device_handle b2")
    case None
    with b2a have e: "b2 = ?b1" by blast
    with None have "libusb_handle_property device = None" by simp
    with e have "b2\<lparr>libusb := None\<rparr> = bulk\<lparr>libusb := None, device_handle := None\<rparr>" by simp
    with None body have "r = Inl Couldnt_get_libusb_device_handle"
      "b' = bulk\<lparr>libusb := None, device_handle := None\<rparr>" "log' = l2 @ [SDL_QuitLibUSB]"
      by simp_all
    with q have "(\<forall>e \<in> set log. quiet e) \<longrightarrow> (\<forall>e \<in> set log'. quiet e)"
      by (auto simp: quiet_def)
    with Some \<open>r = Inl Couldnt_get_libusb_device_handle\<close>
      \<open>b' = bulk\<lparr>libusb := None, device_handle := None\<rparr>\<close>
    show ?thesis by (rule handle)
  next
    case h: (Some h)
    obtain ok n ep_out ep_in where f: "Switch2_BulkUSB_FindEndpoints (config_descriptor env h)
                (interface_number b2, out_endpoint b2, in_endpoint b2) = (ok, n, ep_out, ep_in)"
      by (cases "Switch2_BulkUSB_FindEndpoints (config_descriptor env h)
                (interface_number b2, out_endpoint b2, in_endpoint b2)") auto
    let ?b3 = "b2\<lparr>interface_number := n, out_endpoint := ep_out, in_endpoint := ep_in\<rparr>"
    show ?thesis
    proof (cases ok)
      case False
      with h f body have rb: "r = Inl Couldnt_find_bulk_endpoints" "b' = ?b3" and "log' = l2"
        by simp_all
      with q have q': "(\<forall>e \<in> set log. quiet e) \<longrightarrow> (\<forall>e \<in> set log'. quiet e)" by simp
      from f False have f': "Switch2_BulkUSB_FindEndpoints (config_descriptor env h)
          (interface_number b2, out_endpoint b2, in_endpoint b2) = (False, n, ep_out, ep_in)"
        by simp
      from own h have own': "libusb_handle_property device = None \<longrightarrow>
          owns_device_handle b2 \<and> libusb_ctx b2 \<noteq> None" by simp
      show ?thesis
        by (rule endpoints [OF Some keep(1) h keep(2) keep(3) own' f' rb q'])
    next
      case True
      show ?thesis
      proof (cases "claim_interface env h n < 0")
        case neg: True
        with True h f body have rb: "r = Inl (Couldnt_claim_interface n (claim_interface env h n))"
          "b' = ?b3"
          by (simp_all add: Let_def)
        from f True have f': "Switch2_BulkUSB_FindEndpoints (config_descriptor env h)
            (interface_number b2, out_endpoint b2, in_endpoint b2) = (True, n, ep_out, ep_in)"
          by simp
        from own h have own': "libusb_handle_property device = None \<longrightarrow>
            owns_device_handle b2 \<and> libusb_ctx b2 \<noteq> None" by simp
        show ?thesis
          by (rule claim [OF Some keep(1) h keep(2) keep(3) own' f' neg rb])
      next
        case nonneg: False
        with True h f body have rb: "r = Inr ()" "b' = ?b3\<lparr>interface_claimed := True\<rparr>"
          by (simp_all add: Let_def)
        from f True have f': "Switch2_BulkUSB_FindEndpoints (config_descriptor env h)
            (interface_number b2, out_endpoint b2, in_endpoint b2) = (True, n, ep_out, ep_in)"
          by simp
        from nonneg have nn: "0 \<le> claim_interface env h n" by simp
        show ?thesis
          by (rule opened [OF Some keep(1) h keep(3) f' nn rb])
      qed
    qed
  qed
qed

lemma Open_failure_libusb:
  assumes "Switch2_BulkUSB_Open win32 env device bulk = Some (Inl err, b', log)"
  shows "\<exists>log1. (\<forall>e \<in> set log1. quiet e) \<and> open_libusb env device bulk log1 = (Inl err, b', log)"
proof (cases win32)
  case False
  with assms have "open_libusb env device bulk [] = (Inl err, b', log)"
    by (simp add: Switch2_BulkUSB_Open_def)
  then show ?thesis by (intro exI[of _ "[]"]) simp
next
  case True
  obtain native b1 l1 where w: "Switch2_BulkUSB_OpenWinUSB env bulk = (native, b1, l1)"
    by (cases "Switch2_BulkUSB_OpenWinUSB env bulk") auto
  note e = OpenWinUSB_effect[OF w]
  from assms True w have n: "\<not> native"
    by (auto simp: Switch2_BulkUSB_Open_def split: option.splits if_splits)
  with e have "b1 = bulk" by simp
  with assms True w n have "open_libusb env device bulk l1 = (Inl err, b', log)"
    by (simp add: Switch2_BulkUSB_Open_def)
  with e show ?thesis by blast
qed

lemma Open_generic_path:
  assumes "\<not> (win32 \<and> fst (Switch2_BulkUSB_OpenWinUSB env bulk))"
  shows "\<exists>log1. (\<forall>e \<in> set log1. quiet e) \<and>
           Switch2_BulkUSB_Open win32 env device bulk = Some (open_libusb env device bulk log1)"
proof (cases win32)
  case False
  then have "Switch2_BulkUSB_Open win32 env device bulk = Some (open_libusb env device bulk [])"
    by (simp add: Switch2_BulkUSB_Open_def)
  then show ?thesis by (intro exI[of _ "[]"]) simp
next
  case True
  obtain native b1 l1 where w: "Switch2_BulkUSB_OpenWinUSB env bulk = (native, b1, l1)"
    by (cases "Switch2_BulkUSB_OpenWinUSB env bulk") auto
  note e = OpenWinUSB_effect[OF w]
  from assms True w have n: "\<not> native" by simp
  with e have "b1 = bulk" by simp
  with True w n have "Switch2_BulkUSB_Open win32 env device bulk =
      Some (open_libusb env device bulk l1)"
    by (simp add: Switch2_BulkUSB_Open_def)
  with e show ?thesis by blast
qed

text \<open>
  Claim C5, as amended. Whenever \<^verbatim>\<open>Switch2_BulkUSB_Open\<close> returns false, the flags
  \<^verbatim>\<open>interface_claimed\<close> and \<^verbatim>\<open>use_winusb\<close> are what they were before the call, so that a
  context that was zeroed has no backend marked active. After the failure to initialise
  libusb the whole context is what it was; after the failure to get a device handle it is
  what it was with \<^verbatim>\<open>libusb\<close> and \<^verbatim>\<open>device_handle\<close> cleared, which for a zeroed context is
  the zeroed context again. After the failure to find the endpoints and after the failure
  to claim the interface the context still records the libusb runtime reference and the
  device handle, and, when the transport opened its own connection, the ownership flag and
  the private libusb context: they are left for \<^verbatim>\<open>Switch2_BulkUSB_Close\<close> to release.
\<close>

theorem Open_failure_state:
  assumes "Switch2_BulkUSB_Open win32 env device bulk = Some (Inl err, b', log)"
  shows "interface_claimed b' = interface_claimed bulk \<and> use_winusb b' = use_winusb bulk \<and>
         (err = Couldnt_initialize_libusb \<longrightarrow> b' = bulk) \<and>
         (err = Couldnt_get_libusb_device_handle \<longrightarrow>
            b' = bulk\<lparr>libusb := None, device_handle := None\<rparr>) \<and>
         (err \<noteq> Couldnt_initialize_libusb \<and> err \<noteq> Couldnt_get_libusb_device_handle \<longrightarrow>
            libusb b' = init_libusb env \<and> libusb b' \<noteq> None \<and> device_handle b' \<noteq> None \<and>
            (libusb_handle_property device = None \<longrightarrow>
               owns_device_handle b' \<and> libusb_ctx b' \<noteq> None)) \<and>
         (bulk = empty_bulk \<longrightarrow>
            \<not> interface_claimed b' \<and> \<not> use_winusb b' \<and>
            (err = Couldnt_initialize_libusb \<or> err = Couldnt_get_libusb_device_handle \<longrightarrow>
               b' = empty_bulk))"
proof -
  from Open_failure_libusb[OF assms] obtain log1 where
    o: "open_libusb env device bulk log1 = (Inl err, b', log)" by blast
  have e: "bulk = empty_bulk \<Longrightarrow> bulk\<lparr>libusb := None, device_handle := None\<rparr> = empty_bulk"
    by (simp add: empty_bulk_def)
  have f: "bulk = empty_bulk \<Longrightarrow> \<not> interface_claimed bulk \<and> \<not> use_winusb bulk"
    by (simp add: empty_bulk_def)
  from o show ?thesis
  proof (cases rule: open_libusb_cases)
    case init
    with f show ?thesis by auto
  next
    case (handle p)
    with e f show ?thesis by auto
  next
    case (endpoints p b2 h n ep_out ep_in)
    with f show ?thesis by auto
  next
    case (claim p b2 h n ep_out ep_in)
    with f show ?thesis by auto
  next
    case (opened p b2 h n ep_out ep_in)
    then show ?thesis by simp
  qed
qed

lemmas open_eval =
  Switch2_BulkUSB_Open_def open_libusb_def own_connection_def Switch2_BulkUSB_FindEndpoints_def
  shared_env_def no_libusb_env_def claimable_env_def busy_env_def shared_device_def
  lonely_device_def empty_bulk_def hid_only_config_def composite_config_def
  LIBUSB_TRANSFER_TYPE_MASK_def LIBUSB_TRANSFER_TYPE_BULK_def
  LIBUSB_ENDPOINT_DIR_MASK_def LIBUSB_ENDPOINT_OUT_def LIBUSB_ENDPOINT_IN_def

text \<open>
  Claim C5 as stated fails: an Open on a zeroed context that shares the handle of the HID
  layer and finds no bulk endpoints returns false with the libusb runtime reference and
  the device handle recorded in the context.
\<close>

theorem Open_failure_keeps_references:
  "Switch2_BulkUSB_Open False shared_env shared_device empty_bulk =
     Some (Inl Couldnt_find_bulk_endpoints,
           empty_bulk\<lparr>libusb := Some 1, device_handle := Some 7\<rparr>, [SDL_InitLibUSB]) \<and>
   libusb (empty_bulk\<lparr>libusb := Some 1, device_handle := Some 7\<rparr>) \<noteq> libusb empty_bulk \<and>
   device_handle (empty_bulk\<lparr>libusb := Some 1, device_handle := Some 7\<rparr>) \<noteq>
     device_handle empty_bulk"
  by (simp add: open_eval)

theorem Open_failure_state_witness:
  "Switch2_BulkUSB_Open False busy_env shared_device empty_bulk =
     Some (Inl (Couldnt_claim_interface 1 (- 6)),
           empty_bulk\<lparr>libusb := Some 1, device_handle := Some 7, interface_number := 1,
             out_endpoint := 0x02, in_endpoint := 0x82\<rparr>,
           [SDL_InitLibUSB, Libusb_set_auto_detach_kernel_driver (Some 7),
            Libusb_claim_interface (Some 7) 1]) \<and>
   \<not> interface_claimed (empty_bulk\<lparr>libusb := Some 1, device_handle := Some 7,
        interface_number := 1, out_endpoint := 0x02, in_endpoint := 0x82\<rparr>) \<and>
   Switch2_BulkUSB_Open False no_libusb_env shared_device empty_bulk =
     Some (Inl Couldnt_initialize_libusb, empty_bulk, [SDL_InitLibUSB]) \<and>
   Switch2_BulkUSB_Open False shared_env lonely_device empty_bulk =
     Some (Inl Couldnt_get_libusb_device_handle, empty_bulk,
           [SDL_InitLibUSB, Libusb_init, SDL_QuitLibUSB])"
  using Open_failure_state [of False busy_env shared_device empty_bulk
      "Couldnt_claim_interface 1 (- 6)"
      "empty_bulk\<lparr>libusb := Some 1, device_handle := Some 7, interface_number := 1,
         out_endpoint := 0x02, in_endpoint := 0x82\<rparr>"
      "[SDL_InitLibUSB, Libusb_set_auto_detach_kernel_driver (Some 7),
        Libusb_claim_interface (Some 7) 1]"]
  by (simp add: open_eval)

lemma FindEndpoints_None: "fst (Switch2_BulkUSB_FindEndpoints None outs) = False"
  by (simp add: Switch2_BulkUSB_FindEndpoints_def)

lemma FindEndpoints_lacking:
  assumes "filter bulk_out (interface1_endpoints config) = [] \<or>
           filter bulk_in (interface1_endpoints config) = []"
  shows "fst (Switch2_BulkUSB_FindEndpoints (Some config) outs) = False"
proof -
  obtain n0 o0 i0 where outs: "outs = (n0, o0, i0)" by (cases outs) auto
  let ?v = "\<lparr>found = 0, iface_num = n0, out_ep = o0, in_ep = i0\<rparr>"
  have "fst (scan_endpoints 1 (interface1_endpoints config) ?v) = False"
    using assms scan_endpoints_missing[of "interface1_endpoints config" ?v 1] by auto
  then show ?thesis
    by (simp add: outs Switch2_BulkUSB_FindEndpoints_def scan_interfaces_flat
        interface1_endpoints_def case_prod_beta)
qed

text \<open>
  Claim C6. If every configuration descriptor the device can give has no bulk OUT endpoint
  or no bulk IN endpoint on interface 1 (in particular when it has no interface 1), then
  endpoint discovery returns false on every handle, and an Open that takes the libusb path
  (the file is compiled without WinUSB, or the WinUSB attempt fails) returns false, having
  made no call of \<^verbatim>\<open>claim_interface\<close> and no transfer, and leaves \<^verbatim>\<open>interface_claimed\<close> as
  it was (false for a context that was not claimed before). When libusb is initialised and
  the HID layer shares its handle, the error is the one of endpoint discovery.
\<close>

theorem Open_without_interface:
  assumes lacks: "\<forall>h config. config_descriptor env h = Some config \<longrightarrow>
             filter bulk_out (interface1_endpoints config) = [] \<or>
             filter bulk_in (interface1_endpoints config) = []"
    and generic: "\<not> (win32 \<and> fst (Switch2_BulkUSB_OpenWinUSB env bulk))"
  shows "(\<forall>h outs. fst (Switch2_BulkUSB_FindEndpoints (config_descriptor env h) outs) = False) \<and>
         (\<exists>err b' log.
            Switch2_BulkUSB_Open win32 env device bulk = Some (Inl err, b', log) \<and>
            (\<forall>e \<in> set log. \<not> is_claim_interface e \<and> \<not> is_transfer e) \<and>
            interface_claimed b' = interface_claimed bulk \<and>
            (init_libusb env \<noteq> None \<and> libusb_handle_property device \<noteq> None \<longrightarrow>
               err = Couldnt_find_bulk_endpoints))"
proof
  show fails: "\<forall>h outs. fst (Switch2_BulkUSB_FindEndpoints (config_descriptor env h) outs) = False"
  proof (intro allI)
    fix h outs
    show "fst (Switch2_BulkUSB_FindEndpoints (config_descriptor env h) outs) = False"
    proof (cases "config_descriptor env h")
      case None
      then show ?thesis by (simp add: FindEndpoints_None)
    next
      case (Some config)
      with lacks have "filter bulk_out (interface1_endpoints config) = [] \<or>
             filter bulk_in (interface1_endpoints config) = []" by blast
      from FindEndpoints_lacking[OF this] Some show ?thesis by simp
    qed
  qed
  from Open_generic_path[OF generic] obtain log1 where
    q: "\<forall>e \<in> set log1. quiet e" and
    o: "Switch2_BulkUSB_Open win32 env device bulk = Some (open_libusb env device bulk log1)"
    by blast
  obtain r b' log where l: "open_libusb env device bulk log1 = (r, b', log)"
    by (cases "open_libusb env device bulk log1") auto
  have nohandle: "libusb_handle_property device \<noteq> None \<and> init_libusb env \<noteq> None \<longrightarrow>
      r \<noteq> Inl Couldnt_get_libusb_device_handle"
    using l by (auto simp: open_libusb_def Let_def split: option.splits prod.splits if_splits)
  from l have "\<exists>err. r = Inl err \<and> (\<forall>e \<in> set log. quiet e) \<and>
      interface_claimed b' = interface_claimed bulk \<and>
      (init_libusb env \<noteq> None \<and> libusb_handle_property device \<noteq> None \<longrightarrow>
         err = Couldnt_find_bulk_endpoints)"
  proof (cases rule: open_libusb_cases)
    case init
    with q show ?thesis by auto
  next
    case (handle p)
    with nohandle have "\<not> (init_libusb env \<noteq> None \<and> libusb_handle_property device \<noteq> None)"
      by blast
    with handle q show ?thesis by simp
  next
    case (endpoints p b2 h n ep_out ep_in)
    with q show ?thesis by auto
  next
    case (claim p b2 h n ep_out ep_in)
    with fails have False by (metis fst_conv)
    then show ?thesis ..
  next
    case (opened p b2 h n ep_out ep_in)
    with fails have False by (metis fst_conv)
    then show ?thesis ..
  qed
  with o l show "\<exists>err b' log.
            Switch2_BulkUSB_Open win32 env device bulk = Some (Inl err, b', log) \<and>
            (\<forall>e \<in> set log. \<not> is_claim_interface e \<and> \<not> is_transfer e) \<and>
            interface_claimed b' = interface_claimed bulk \<and>
            (init_libusb env \<noteq> None \<and> libusb_handle_property device \<noteq> None \<longrightarrow>
               err = Couldnt_find_bulk_endpoints)"
    by (auto simp: quiet_def)
qed

theorem Open_without_interface_witness:
  "config_descriptor shared_env 7 = Some hid_only_config \<and>
   filter bulk_out (interface1_endpoints hid_only_config) = [] \<and>
   Switch2_BulkUSB_Open False shared_env shared_device empty_bulk =
     Some (Inl Couldnt_find_bulk_endpoints,
           empty_bulk\<lparr>libusb := Some 1, device_handle := Some 7\<rparr>, [SDL_InitLibUSB]) \<and>
   fst (Switch2_BulkUSB_FindEndpoints (config_descriptor shared_env 7) (0, 0, 0)) = False \<and>
   \<not> interface_claimed (empty_bulk\<lparr>libusb := Some 1, device_handle := Some 7\<rparr>)"
proof -
  have lacks: "\<forall>h config. config_descriptor shared_env h = Some config \<longrightarrow>
             filter bulk_out (interface1_endpoints config) = [] \<or>
             filter bulk_in (interface1_endpoints config) = []"
    by (simp add: shared_env_def hid_only_config_def interface1_endpoints_def)
  have generic: "\<not> (False \<and> fst (Switch2_BulkUSB_OpenWinUSB shared_env empty_bulk))" by simp
  from Open_without_interface[OF lacks generic, of shared_device]
  show ?thesis by (simp add: open_eval interface1_endpoints_def)
qed

lemma Close_closed:
  assumes "libusb bulk = None" and "\<not> (win32 \<and> use_winusb bulk)"
  shows "Switch2_BulkUSB_Close win32 bulk = (bulk, [])"
proof (rule prod_eqI)
  from assms show "snd (Switch2_BulkUSB_Close win32 bulk) = snd (bulk, [])"
    by (auto simp: Close_calls)
  from assms show "fst (Switch2_BulkUSB_Close win32 bulk) = fst (bulk, [])"
    by (auto simp: Close_state)
qed

lemma Close_twice:
  "Switch2_BulkUSB_Close win32 (fst (Switch2_BulkUSB_Close win32 bulk)) =
     (fst (Switch2_BulkUSB_Close win32 bulk), [])"
  by (rule Close_closed) (simp_all add: Close_state)

lemma close_times_closed:
  assumes "libusb bulk = None" and "\<not> (win32 \<and> use_winusb bulk)"
  shows "close_times win32 n bulk = (bulk, [])"
  using assms by (induction n) (simp_all add: Close_closed)

lemma close_times_Suc:
  "close_times win32 (Suc n) bulk = Switch2_BulkUSB_Close win32 bulk"
proof -
  obtain b' log where c: "Switch2_BulkUSB_Close win32 bulk = (b', log)"
    by (cases "Switch2_BulkUSB_Close win32 bulk") auto
  then have "b' = fst (Switch2_BulkUSB_Close win32 bulk)" by simp
  then have "libusb b' = None" "\<not> (win32 \<and> use_winusb b')"
    by (simp_all add: Close_state)
  then have "close_times win32 n b' = (b', [])" by (rule close_times_closed)
  with c show ?thesis by simp
qed

lemma Close_releases_interface:
  "length (filter is_release_interface (snd (Switch2_BulkUSB_Close win32 bulk))) =
     (if interface_claimed bulk \<and> libusb bulk \<noteq> None then 1 else 0)"
  by (simp add: Close_calls)

lemma Open_claimed:
  assumes "Switch2_BulkUSB_Open win32 env device bulk0 = Some (Inr (), bulk, log)"
    and "\<not> interface_claimed bulk0"
    and "interface_claimed bulk"
  shows "libusb bulk \<noteq> None"
proof -
  obtain native b1 l1 where w:
    "(if win32 then Switch2_BulkUSB_OpenWinUSB env bulk0 else (False, bulk0, [])) = (native, b1, l1)"
    by (cases "if win32 then Switch2_BulkUSB_OpenWinUSB env bulk0 else (False, bulk0, [])") auto
  have e: "(\<not> native \<longrightarrow> b1 = bulk0) \<and> (native \<longrightarrow> interface_claimed b1 = interface_claimed bulk0)"
  proof (cases win32)
    case True
    with w have "Switch2_BulkUSB_OpenWinUSB env bulk0 = (native, b1, l1)" by simp
    from OpenWinUSB_effect[OF this] show ?thesis by simp
  next
    case False
    with w show ?thesis by auto
  qed
  show ?thesis
  proof (cases native)
    case True
    with assms(1) w have "bulk = b1"
      by (auto simp: Switch2_BulkUSB_Open_def split: option.splits)
    with e True assms(2,3) show ?thesis by simp
  next
    case False
    with assms(1) w e have "open_libusb env device bulk0 l1 = (Inr (), bulk, log)"
      by (auto simp: Switch2_BulkUSB_Open_def)
    then show ?thesis by (cases rule: open_libusb_cases) simp_all
  qed
qed

text \<open>
  Claim C7. The calls of one \<^verbatim>\<open>Switch2_BulkUSB_Close\<close>, in order: under WinUSB the session
  handle is freed if there is one and the file handle is closed if it is a valid handle;
  the interface is released if \<^verbatim>\<open>interface_claimed\<close> is set (and libusb is there); the
  device handle is closed if \<^verbatim>\<open>owns_device_handle\<close> is set (and the handle and libusb
  are there), so a borrowed handle is never closed; the private libusb context is torn
  down if there is one; last, the reference on the libusb runtime is given back if the
  context holds one. The calls are always a subsequence of these six in this order. A
  claimed interface (in a context that holds libusb, as every context does in which Open
  has set the flag) is released exactly once however many times Close is called, and no
  context has its interface released more than once.
\<close>

theorem Close_order:
  "snd (Switch2_BulkUSB_Close win32 bulk) =
     (if win32 \<and> use_winusb bulk \<and> winusb_handle bulk \<noteq> None
      then [WinUsb_Free (winusb_handle bulk)] else []) @
     (if win32 \<and> use_winusb bulk \<and> winusb_file_handle bulk \<noteq> NULL_HANDLE \<and>
         winusb_file_handle bulk \<noteq> INVALID_HANDLE_VALUE
      then [CloseHandle (winusb_file_handle bulk)] else []) @
     (if interface_claimed bulk \<and> libusb bulk \<noteq> None
      then [Libusb_release_interface (device_handle bulk) (interface_number bulk)] else []) @
     (if owns_device_handle bulk \<and> device_handle bulk \<noteq> None \<and> libusb bulk \<noteq> None
      then [Libusb_close (device_handle bulk)] else []) @
     (if libusb_ctx bulk \<noteq> None \<and> libusb bulk \<noteq> None
      then [Libusb_exit (libusb_ctx bulk)] else []) @
     (if libusb bulk \<noteq> None then [SDL_QuitLibUSB] else []) \<and>
   subseq (snd (Switch2_BulkUSB_Close win32 bulk))
     [WinUsb_Free (winusb_handle bulk), CloseHandle (winusb_file_handle bulk),
      Libusb_release_interface (device_handle bulk) (interface_number bulk),
      Libusb_close (device_handle bulk), Libusb_exit (libusb_ctx bulk), SDL_QuitLibUSB] \<and>
   (interface_claimed bulk \<and> libusb bulk \<noteq> None \<longrightarrow>
      length (filter is_release_interface (snd (close_times win32 (Suc n) bulk))) = 1) \<and>
   (Switch2_BulkUSB_Open win32 env device bulk0 = Some (Inr (), bulk, log) \<and>
    \<not> interface_claimed bulk0 \<and> interface_claimed bulk \<longrightarrow>
      length (filter is_release_interface (snd (close_times win32 (Suc n) bulk))) = 1) \<and>
   length (filter is_release_interface (snd (close_times win32 n bulk))) \<le> 1"
proof (intro conjI impI)
  show "snd (Switch2_BulkUSB_Close win32 bulk) =
     (if win32 \<and> use_winusb bulk \<and> winusb_handle bulk \<noteq> None
      then [WinUsb_Free (winusb_handle bulk)] else []) @
     (if win32 \<and> use_winusb bulk \<and> winusb_file_handle bulk \<noteq> NULL_HANDLE \<and>
         winusb_file_handle bulk \<noteq> INVALID_HANDLE_VALUE
      then [CloseHandle (winusb_file_handle bulk)] else []) @
     (if interface_claimed bulk \<and> libusb bulk \<noteq> None
      then [Libusb_release_interface (device_handle bulk) (interface_number bulk)] else []) @
     (if owns_device_handle bulk \<and> device_handle bulk \<noteq> None \<and> libusb bulk \<noteq> None
      then [Libusb_close (device_handle bulk)] else []) @
     (if libusb_ctx bulk \<noteq> None \<and> libusb bulk \<noteq> None
      then [Libusb_exit (libusb_ctx bulk)] else []) @
     (if libusb bulk \<noteq> None then [SDL_QuitLibUSB] else [])"
    by (rule Close_calls)
next
  let ?a = "WinUsb_Free (winusb_handle bulk)" and ?b = "CloseHandle (winusb_file_handle bulk)"
    and ?c = "Libusb_release_interface (device_handle bulk) (interface_number bulk)"
    and ?d = "Libusb_close (device_handle bulk)" and ?e = "Libusb_exit (libusb_ctx bulk)"
  have s: "subseq ((if p then [x] else []) @ xs) (x # ys)" if "subseq xs ys"
    for p and x :: event and xs ys
    using that by (cases p) (auto intro: list_emb_Cons)
  have "subseq ((if libusb bulk \<noteq> None then [SDL_QuitLibUSB] else []) @ []) (SDL_QuitLibUSB # [])"
    by (rule s) simp
  then have "subseq (if libusb bulk \<noteq> None then [SDL_QuitLibUSB] else []) [SDL_QuitLibUSB]"
    by simp
  then show "subseq (snd (Switch2_BulkUSB_Close win32 bulk)) [?a, ?b, ?c, ?d, ?e, SDL_QuitLibUSB]"
    unfolding Close_calls by (intro s)
next
  assume "interface_claimed bulk \<and> libusb bulk \<noteq> None"
  then show "length (filter is_release_interface (snd (close_times win32 (Suc n) bulk))) = 1"
    by (simp add: close_times_Suc Close_releases_interface del: close_times.simps)
next
  assume a: "Switch2_BulkUSB_Open win32 env device bulk0 = Some (Inr (), bulk, log) \<and>
    \<not> interface_claimed bulk0 \<and> interface_claimed bulk"
  then have "libusb bulk \<noteq> None" using Open_claimed by blast
  with a show "length (filter is_release_interface (snd (close_times win32 (Suc n) bulk))) = 1"
    by (simp add: close_times_Suc Close_releases_interface del: close_times.simps)
next
  show "length (filter is_release_interface (snd (close_times win32 n bulk))) \<le> 1"
  proof (cases n)
    case 0
    then show ?thesis by simp
  next
    case (Suc m)
    then show ?thesis
      by (simp add: close_times_Suc Close_releases_interface del: close_times.simps)
  qed
qed

text \<open>
  Claim C8. Close on a context that was never opened makes no call and leaves it as it
  is. On any context, also one that an Open left partly filled, every call Close makes is
  a release of a resource that the context records as acquired. A second Close right
  after a first one makes no call at all and leaves the context unchanged.
\<close>

theorem Close_idempotent:
  "Switch2_BulkUSB_Close win32 empty_bulk = (empty_bulk, []) \<and>
   (\<forall>e \<in> set (snd (Switch2_BulkUSB_Close win32 bulk)). is_release e \<and> acquired bulk e) \<and>
   Switch2_BulkUSB_Close win32 (fst (Switch2_BulkUSB_Close win32 bulk)) =
     (fst (Switch2_BulkUSB_Close win32 bulk), [])"
proof (intro conjI)
  show "Switch2_BulkUSB_Close win32 empty_bulk = (empty_bulk, [])"
    by (rule Close_closed) (simp_all add: empty_bulk_def)
  show "\<forall>e \<in> set (snd (Switch2_BulkUSB_Close win32 bulk)). is_release e \<and> acquired bulk e"
    unfolding Close_calls by (auto split: if_splits)
  show "Switch2_BulkUSB_Close win32 (fst (Switch2_BulkUSB_Close win32 bulk)) =
     (fst (Switch2_BulkUSB_Close win32 bulk), [])"
    by (rule Close_twice)
qed

lemmas bulk_eval = mixed_bulk_def owned_bulk_def libusb_bulk_def winusb_bulk_def empty_bulk_def

theorem Close_order_witness:
  "interface_claimed mixed_bulk \<and> libusb mixed_bulk = Some 1 \<and>
   snd (Switch2_BulkUSB_Close True mixed_bulk) =
     [WinUsb_Free (Some 4), CloseHandle (Handle 3), Libusb_release_interface (Some 2) 1,
      Libusb_close (Some 2), Libusb_exit (Some 5), SDL_QuitLibUSB] \<and>
   snd (Switch2_BulkUSB_Close False libusb_bulk) =
     [Libusb_release_interface (Some 2) 1, SDL_QuitLibUSB] \<and>
   length (filter is_release_interface (snd (close_times True (Suc 2) mixed_bulk))) = 1 \<and>
   Switch2_BulkUSB_Open False claimable_env shared_device empty_bulk =
     Some (Inr (),
           empty_bulk\<lparr>libusb := Some 1, device_handle := Some 7, interface_claimed := True,
             interface_number := 1, out_endpoint := 0x02, in_endpoint := 0x82\<rparr>,
           [SDL_InitLibUSB, Libusb_set_auto_detach_kernel_driver (Some 7),
            Libusb_claim_interface (Some 7) 1]) \<and>
   length (filter is_release_interface (snd (close_times False (Suc 4)
     (empty_bulk\<lparr>libusb := Some 1, device_handle := Some 7, interface_claimed := True,
        interface_number := 1, out_endpoint := 0x02, in_endpoint := 0x82\<rparr>)))) = 1"
proof -
  let ?b = "empty_bulk\<lparr>libusb := Some 1, device_handle := Some 7, interface_claimed := True,
             interface_number := 1, out_endpoint := 0x02, in_endpoint := 0x82\<rparr>"
  let ?l = "[SDL_InitLibUSB, Libusb_set_auto_detach_kernel_driver (Some 7),
            Libusb_claim_interface (Some 7) 1]"
  have o: "Switch2_BulkUSB_Open False claimable_env shared_device empty_bulk = Some (Inr (), ?b, ?l)"
    by (simp add: open_eval)
  have m: "interface_claimed mixed_bulk \<and> libusb mixed_bulk \<noteq> None"
    by (simp add: bulk_eval)
  have e: "\<not> interface_claimed empty_bulk" "interface_claimed ?b"
    by (simp_all add: empty_bulk_def)
  from Close_order [of True mixed_bulk 2 claimable_env shared_device empty_bulk ?l] m
  have 1: "snd (Switch2_BulkUSB_Close True mixed_bulk) =
     [WinUsb_Free (Some 4), CloseHandle (Handle 3), Libusb_release_interface (Some 2) 1,
      Libusb_close (Some 2), Libusb_exit (Some 5), SDL_QuitLibUSB]"
    and 2: "length (filter is_release_interface (snd (close_times True (Suc 2) mixed_bulk))) = 1"
    by (simp_all add: bulk_eval del: close_times.simps)
  from Close_order [of False libusb_bulk 0 claimable_env shared_device empty_bulk ?l]
  have 3: "snd (Switch2_BulkUSB_Close False libusb_bulk) =
     [Libusb_release_interface (Some 2) 1, SDL_QuitLibUSB]"
    by (simp add: bulk_eval del: close_times.simps)
  from Close_order [of False ?b 4 claimable_env shared_device empty_bulk ?l] o e
  have 4: "length (filter is_release_interface (snd (close_times False (Suc 4) ?b))) = 1"
    by (simp del: close_times.simps)
  have 5: "interface_claimed mixed_bulk \<and> libusb mixed_bulk = Some 1"
    by (simp add: bulk_eval)
  from 1 2 3 4 5 o show ?thesis by (simp del: close_times.simps)
qed

theorem Close_idempotent_witness:
  "Switch2_BulkUSB_Close True empty_bulk = (empty_bulk, []) \<and>
   snd (Switch2_BulkUSB_Close False (empty_bulk\<lparr>libusb := Some 1, device_handle := Some 7\<rparr>)) =
     [SDL_QuitLibUSB] \<and>
   list_all (\<lambda>e. is_release e \<and> acquired mixed_bulk e)
     (snd (Switch2_BulkUSB_Close True mixed_bulk)) \<and>
   Switch2_BulkUSB_Close True (fst (Switch2_BulkUSB_Close True mixed_bulk)) =
     (fst (Switch2_BulkUSB_Close True mixed_bulk), [])"
  using Close_idempotent [of True mixed_bulk]
    Close_idempotent [of False "empty_bulk\<lparr>libusb := Some 1, device_handle := Some 7\<rparr>"]
  by (simp add: list_all_iff Close_calls empty_bulk_def)

end
